theory Spec2Isabelle
  imports Complex_Main "HOL-Library.Multiset" "HOL-Library.AList" "HOL-Library.Product_Lexorder"
begin

section \<open>Policy and text utilities\<close>

text \<open>
  Text is modelled as \<open>string\<close>: one \<open>char\<close> per UTF-16 code unit of the JavaScript
  string, for code units in the range U+0000..U+00FF. \<open>length\<close> therefore counts what
  \<open>String.prototype.length\<close> counts. JavaScript numbers that hold list caps, character
  caps and indices are modelled as \<open>int\<close> or \<open>nat\<close>.
\<close>

datatype ClientMode = Small | Balanced | Deep

record ResponsePolicy =
  mode :: ClientMode
  maxGenericItems :: int
  maxSubtasks :: int
  maxFindings :: int
  maxAlternatives :: int
  maxDecisionEntries :: int
  maxAssumptions :: int
  maxRisks :: int
  maxUnknowns :: int
  maxSuccessCriteria :: int
  maxActionSuggestions :: int
  textMaxChars :: int
  shortTextMaxChars :: int

definition POLICY_BY_MODE :: "ClientMode \<Rightarrow> ResponsePolicy" where
  "POLICY_BY_MODE m = (case m of
     Small \<Rightarrow> \<lparr> mode = Small, maxGenericItems = 12, maxSubtasks = 8, maxFindings = 6,
        maxAlternatives = 2, maxDecisionEntries = 20, maxAssumptions = 12, maxRisks = 8,
        maxUnknowns = 10, maxSuccessCriteria = 8, maxActionSuggestions = 3,
        textMaxChars = 240, shortTextMaxChars = 120 \<rparr>
   | Balanced \<Rightarrow> \<lparr> mode = Balanced, maxGenericItems = 16, maxSubtasks = 12, maxFindings = 10,
        maxAlternatives = 3, maxDecisionEntries = 40, maxAssumptions = 20, maxRisks = 12,
        maxUnknowns = 12, maxSuccessCriteria = 10, maxActionSuggestions = 4,
        textMaxChars = 480, shortTextMaxChars = 200 \<rparr>
   | Deep \<Rightarrow> \<lparr> mode = Deep, maxGenericItems = 24, maxSubtasks = 20, maxFindings = 16,
        maxAlternatives = 3, maxDecisionEntries = 80, maxAssumptions = 40, maxRisks = 18,
        maxUnknowns = 18, maxSuccessCriteria = 14, maxActionSuggestions = 5,
        textMaxChars = 900, shortTextMaxChars = 320 \<rparr>)"

record ClientProfile =
  profileName :: "string option"
  maxContextTokens :: "int option"
  profileMode :: "ClientMode option"

definition resolveClientMode :: "ClientProfile option \<Rightarrow> ClientMode" where
  "resolveClientMode clientProfile =
     (case clientProfile of
        None \<Rightarrow> Balanced
      | Some p \<Rightarrow>
          if profileMode p = Some Small \<or> (case maxContextTokens p of None \<Rightarrow> False | Some t \<Rightarrow> t \<le> 2000)
          then Small
          else if profileMode p = Some Deep \<or> (case maxContextTokens p of None \<Rightarrow> False | Some t \<Rightarrow> t \<ge> 16000)
          then Deep
          else Balanced)"

definition getResponsePolicy :: "ClientProfile option \<Rightarrow> ResponsePolicy" where
  "getResponsePolicy clientProfile = POLICY_BY_MODE (resolveClientMode clientProfile)"

definition capItems :: "'a list \<Rightarrow> int \<Rightarrow> 'a list" where
  "capItems items maxItems = (if maxItems < 0 then [] else take (nat maxItems) items)"

text \<open>The class \<open>\s\<close> of the regular expressions and of \<open>trim\<close>, within U+0000..U+00FF.\<close>

definition isSpace :: "char \<Rightarrow> bool" where
  "isSpace c \<longleftrightarrow> c \<in> set [CHR 0x09, CHR 0x0A, CHR 0x0B, CHR 0x0C, CHR 0x0D, CHR '' '', CHR 0xA0]"

text \<open>\<open>input.replace(/\s+/g, " ")\<close>: every maximal run of white space becomes one blank.\<close>

function collapseSpaces :: "string \<Rightarrow> string" where
  "collapseSpaces [] = []"
| "collapseSpaces (c # cs) =
     (if isSpace c then CHR '' '' # collapseSpaces (dropWhile isSpace cs)
      else c # collapseSpaces cs)"
  by pat_completeness auto
termination
  by (relation "measure length") (auto simp: le_imp_less_Suc length_dropWhile_le)

definition trim :: "string \<Rightarrow> string" where
  "trim s = rev (dropWhile isSpace (rev (dropWhile isSpace s)))"

definition normalizeWhitespace :: "string \<Rightarrow> string" where
  "normalizeWhitespace input = trim (collapseSpaces input)"

definition truncateText :: "string \<Rightarrow> int \<Rightarrow> string" where
  "truncateText input maxChars =
     (if maxChars \<le> 0 then []
      else if int (length input) \<le> maxChars then input
      else if maxChars \<le> 3 then take (nat maxChars) input
      else take (nat (maxChars - 3)) input @ ''...'')"

definition sanitizeText :: "string \<Rightarrow> int \<Rightarrow> string" where
  "sanitizeText input maxChars = truncateText (normalizeWhitespace input) maxChars"

definition sanitizeTextList :: "string list option \<Rightarrow> int \<Rightarrow> int \<Rightarrow> string list" where
  "sanitizeTextList values maxItems maxChars =
     (case values of
        None \<Rightarrow> []
      | Some vs \<Rightarrow>
          if vs = [] then []
          else capItems (filter (\<lambda>v. length v > 0) (map (\<lambda>v. sanitizeText v maxChars) vs)) maxItems)"

text \<open>\<open>String.prototype.toLowerCase\<close> on U+0000..U+00FF: A-Z and the Latin-1 capitals
  U+00C0..U+00DE (without U+00D7) move up by 32. In all of them bit 5 is clear, so adding
  32 sets that bit.\<close>

definition plus32 :: "char \<Rightarrow> char" where
  "plus32 c = (case c of Char b0 b1 b2 b3 b4 b5 b6 b7 \<Rightarrow> Char b0 b1 b2 b3 b4 True b6 b7)"

definition lowerChar :: "char \<Rightarrow> char" where
  "lowerChar c =
     (let n = (of_char c :: int) in
      if (65 \<le> n \<and> n \<le> 90) \<or> (192 \<le> n \<and> n \<le> 222 \<and> n \<noteq> 215) then plus32 c else c)"

definition toLowerCase :: "string \<Rightarrow> string" where
  "toLowerCase s = map lowerChar s"

text \<open>\<open>haystack.startsWith(needle)\<close> and \<open>haystack.includes(needle)\<close>.\<close>

fun startsWith :: "string \<Rightarrow> string \<Rightarrow> bool" where
  "startsWith s [] = True"
| "startsWith [] (w # ws) = False"
| "startsWith (c # cs) (w # ws) = (if c = w then startsWith cs ws else False)"

fun includesStr :: "string \<Rightarrow> string \<Rightarrow> bool" where
  "includesStr [] needle = (needle = [])"
| "includesStr (c # cs) needle = (if startsWith (c # cs) needle then True else includesStr cs needle)"

text \<open>Decimal rendering of a natural number, as a template literal renders an index.\<close>

definition digitChar :: "nat \<Rightarrow> char" where
  "digitChar d = ''0123456789'' ! d"

fun showNat :: "nat \<Rightarrow> string" where
  "showNat n = (if n < 10 then [digitChar n] else showNat (n div 10) @ [digitChar (n mod 10)])"

text \<open>The keys of \<open>new Set(values)\<close> in insertion order: first occurrences are kept.\<close>

fun uniqueInOrder :: "'a list \<Rightarrow> 'a list \<Rightarrow> 'a list" where
  "uniqueInOrder seen [] = seen"
| "uniqueInOrder seen (x # xs) = uniqueInOrder (if x \<in> set seen then seen else seen @ [x]) xs"

fun pickUniqueLoop :: "string list \<Rightarrow> string list \<Rightarrow> string list \<Rightarrow> string list" where
  "pickUniqueLoop seen result [] = result"
| "pickUniqueLoop seen result (v # vs) =
     (let key = toLowerCase v in
      if key \<in> set seen then pickUniqueLoop seen result vs
      else pickUniqueLoop (seen @ [key]) (result @ [v]) vs)"

definition pickUniqueStrings :: "string list \<Rightarrow> string list" where
  "pickUniqueStrings values = pickUniqueLoop [] [] values"

subsection \<open>Regular-expression tests\<close>

text \<open>\<open>\w\<close> is \<open>[A-Za-z0-9_]\<close>; \<open>\b\<close> holds at a position where exactly one of the two
  neighbouring code units is a word character.\<close>

definition isWordChar :: "char \<Rightarrow> bool" where
  "isWordChar c =
     (let n = (of_char c :: int) in
      (48 \<le> n \<and> n \<le> 57) \<or> (65 \<le> n \<and> n \<le> 90) \<or> n = 95 \<or> (97 \<le> n \<and> n \<le> 122))"

definition asciiLower :: "char \<Rightarrow> char" where
  "asciiLower c = (let n = (of_char c :: int) in if 65 \<le> n \<and> n \<le> 90 then plus32 c else c)"

text \<open>The position between a code unit that is (or is not) a word character and the
  rest of the string is a word boundary when exactly one side is a word character; the
  start and the end of the string count as non-word.\<close>

definition boundaryBetween :: "bool \<Rightarrow> string \<Rightarrow> bool" where
  "boundaryBetween prevIsWord rest =
     (prevIsWord \<noteq> (case rest of [] \<Rightarrow> False | c # _ \<Rightarrow> isWordChar c))"

text \<open>A literal alternative matches a prefix of \<open>s\<close>; with the flag \<open>i\<close> letters are
  compared up to ASCII case. The result is the rest of \<open>s\<close> behind the match and
  whether the last matched code unit is a word character.\<close>

fun literalPrefix :: "bool \<Rightarrow> string \<Rightarrow> bool \<Rightarrow> string \<Rightarrow> (bool \<times> string) option" where
  "literalPrefix ignoreCase [] prevIsWord s = Some (prevIsWord, s)"
| "literalPrefix ignoreCase (w # ws) prevIsWord [] = None"
| "literalPrefix ignoreCase (w # ws) prevIsWord (c # cs) =
     (if (if ignoreCase then asciiLower c = asciiLower w else c = w)
      then literalPrefix ignoreCase ws (isWordChar c) cs
      else None)"

text \<open>One of the alternatives \<open>w\<close> matches a prefix of \<open>s\<close> and a word boundary
  follows the match.\<close>

definition wordAt :: "bool \<Rightarrow> bool \<Rightarrow> string \<Rightarrow> string \<Rightarrow> bool" where
  "wordAt ignoreCase prevIsWord s w =
     (case literalPrefix ignoreCase w prevIsWord s of
        None \<Rightarrow> False
      | Some (lastIsWord, rest) \<Rightarrow> boundaryBetween lastIsWord rest)"

text \<open>\<open>\b(w1|...|wn)\b\<close> matches at some position of \<open>s\<close>, where \<open>prevIsWord\<close> tells
  whether the code unit in front of \<open>s\<close> is a word character.\<close>

fun testWordsFrom :: "bool \<Rightarrow> string list \<Rightarrow> bool \<Rightarrow> string \<Rightarrow> bool" where
  "testWordsFrom ignoreCase ws prevIsWord [] =
     (if boundaryBetween prevIsWord [] then list_ex (wordAt ignoreCase prevIsWord []) ws else False)"
| "testWordsFrom ignoreCase ws prevIsWord (c # cs) =
     (if boundaryBetween prevIsWord (c # cs) then
        (if list_ex (wordAt ignoreCase prevIsWord (c # cs)) ws then True
         else testWordsFrom ignoreCase ws (isWordChar c) cs)
      else testWordsFrom ignoreCase ws (isWordChar c) cs)"

text \<open>\<open>/\b(w1|...|wn)\b/.test(s)\<close>, and with \<open>ignoreCase\<close> the same expression under
  the flag \<open>i\<close>.\<close>

definition testWords :: "bool \<Rightarrow> string list \<Rightarrow> string \<Rightarrow> bool" where
  "testWords ignoreCase ws s = testWordsFrom ignoreCase ws False s"

section \<open>Plan Builder\<close>

datatype PlanStrategy = MinimumRisk | Fastest | BalancedStrategy
datatype StepStatus = Pending | InProgress | Blocked | Done | Skipped
datatype VerificationType = LogicCheck | EvidenceCheck | TestCheck | ReviewCheck | ManualCheck
datatype RiskLevel = Low | Medium | High

record InputSubtask =
  inputId :: string
  inputTitle :: string
  inputDependsOn :: "string list option"

record BuildPlanInput =
  planGoal :: string
  planSubtasks :: "InputSubtask list option"
  planConstraints :: "string list option"
  planStrategy :: "PlanStrategy option"
  includeCheckpoints :: "bool option"
  planPolicy :: ResponsePolicy

record Verification =
  required :: bool
  verificationType :: VerificationType
  hint :: string

record PlanStep =
  stepId :: string
  stepOrder :: nat
  stepTitle :: string
  objective :: string
  stepDependsOn :: "string list"
  stepStatus :: StepStatus
  verification :: Verification
  stepRisk :: RiskLevel

record Checkpoint =
  checkpointId :: string
  afterStepId :: string
  purpose :: string

record PlanSummary =
  totalSteps :: nat
  highRiskSteps :: nat
  verificationPoints :: nat

record BuildPlanOutput =
  outStrategy :: PlanStrategy
  steps :: "PlanStep list"
  checkpoints :: "Checkpoint list"
  planSummary :: PlanSummary

record NormalizedSubtask =
  subtaskId :: string
  subtaskTitle :: string
  subtaskDependsOn :: "string list"

definition fallbackTitles :: "string list" where
  "fallbackTitles = [''Clarify acceptance criteria'', ''Prepare execution context'',
     ''Implement core solution'', ''Verify and finalize output'']"

definition normalizeSubtasks ::
  "string \<Rightarrow> InputSubtask list option \<Rightarrow> ResponsePolicy \<Rightarrow> NormalizedSubtask list" where
  "normalizeSubtasks goal provided policy =
     (if provided \<noteq> None \<and> provided \<noteq> Some [] then
        map (\<lambda>subtask. \<lparr> subtaskId = inputId subtask,
                          subtaskTitle = sanitizeText (inputTitle subtask) (textMaxChars policy),
                          subtaskDependsOn = (case inputDependsOn subtask of None \<Rightarrow> [] | Some ds \<Rightarrow> ds) \<rparr>)
            (the provided)
      else
        map (\<lambda>(title, index).
               \<lparr> subtaskId = ''subtask_auto_'' @ showNat (index + 1),
                 subtaskTitle = sanitizeText title (textMaxChars policy),
                 subtaskDependsOn = (if index = 0 then [] else [''subtask_auto_'' @ showNat index]) \<rparr>)
            (zip fallbackTitles [0..<length fallbackTitles]))"

definition inferRisk :: "string \<Rightarrow> string list option \<Rightarrow> nat \<Rightarrow> RiskLevel" where
  "inferRisk title constraints dependencyCount =
     (let lc = toLowerCase title;
          s1 = (if testWords False [''implement'', ''migration'', ''security'', ''auth'', ''deploy'', ''validate''] lc
                then 2 else 0 :: nat);
          s2 = (if testWords False [''design'', ''architecture'', ''integration'', ''dependency''] lc
                then s1 + 2 else s1);
          s3 = (if dependencyCount \<ge> 2 then s2 + 1 else s2);
          score = (if (case constraints of None \<Rightarrow> 0 | Some cs \<Rightarrow> length cs) \<ge> 5 then s3 + 1 else s3)
      in if score \<ge> 4 then High else if score \<ge> 2 then Medium else Low)"

text \<open>The loop of \<open>compressForFastest\<close>: the index advances by two, \<open>compressed\<close> is the
  accumulator.\<close>

fun compressPairs ::
  "ResponsePolicy \<Rightarrow> NormalizedSubtask list \<Rightarrow> NormalizedSubtask list \<Rightarrow> NormalizedSubtask list" where
  "compressPairs policy compressed [] = compressed"
| "compressPairs policy compressed [first] = compressed @ [first]"
| "compressPairs policy compressed (first # second # rest) =
     compressPairs policy
       (compressed @
         [\<lparr> subtaskId = ''merged_'' @ showNat (length compressed + 1),
            subtaskTitle = sanitizeText (subtaskTitle first @ '' + '' @ subtaskTitle second) (textMaxChars policy),
            subtaskDependsOn = uniqueInOrder [] (subtaskDependsOn first @ subtaskDependsOn second) \<rparr>])
       rest"

definition compressForFastest :: "NormalizedSubtask list \<Rightarrow> ResponsePolicy \<Rightarrow> NormalizedSubtask list" where
  "compressForFastest subtasks policy =
     (if length subtasks \<le> 4 then subtasks else compressPairs policy [] subtasks)"

fun expandForRisk :: "NormalizedSubtask list \<Rightarrow> ResponsePolicy \<Rightarrow> NormalizedSubtask list" where
  "expandForRisk [] policy = []"
| "expandForRisk (subtask # rest) policy =
     (if inferRisk (subtaskTitle subtask) (Some []) (length (subtaskDependsOn subtask)) \<noteq> Low
      then subtask #
           \<lparr> subtaskId = subtaskId subtask @ ''_verify'',
             subtaskTitle = sanitizeText (''Validate '' @ subtaskTitle subtask) (textMaxChars policy),
             subtaskDependsOn = [subtaskId subtask] \<rparr> # expandForRisk rest policy
      else subtask # expandForRisk rest policy)"

subsection \<open>Topological ordering\<close>

text \<open>
  The closure \<open>visit\<close> mutates the sets \<open>visited\<close> and \<open>visiting\<close> and the array
  \<open>ordered\<close>; the model passes them as a state. The recursion of \<open>visit\<close> through the
  loop over \<open>node.dependsOn\<close> is bounded by a depth counter: \<open>None\<close> means the counter
  ran out. \<open>new Map(entries)\<close> keeps the last value given for a key.
\<close>

record VisitState =
  visited :: "string set"
  visiting :: "string set"
  orderedSoFar :: "NormalizedSubtask list"

definition subtaskMap :: "NormalizedSubtask list \<Rightarrow> (string \<rightharpoonup> NormalizedSubtask)" where
  "subtaskMap subtasks = map_of (rev (map (\<lambda>subtask. (subtaskId subtask, subtask)) subtasks))"

fun visit :: "nat \<Rightarrow> (string \<rightharpoonup> NormalizedSubtask) \<Rightarrow> string \<Rightarrow> VisitState \<Rightarrow> VisitState option"
and visitDeps :: "nat \<Rightarrow> (string \<rightharpoonup> NormalizedSubtask) \<Rightarrow> string list \<Rightarrow> VisitState \<Rightarrow> VisitState option"
where
  "visit 0 byId i st = None"
| "visit (Suc depth) byId i st =
     (if i \<in> visited st then Some st
      else if i \<in> visiting st then Some st
      else
        (let st1 = st\<lparr>visiting := insert i (visiting st)\<rparr> in
         case byId i of
           None \<Rightarrow> Some (st1\<lparr>visiting := visiting st1 - {i}\<rparr>)
         | Some node \<Rightarrow>
             (case visitDeps depth byId (subtaskDependsOn node) st1 of
                None \<Rightarrow> None
              | Some st2 \<Rightarrow>
                  Some (st2\<lparr>visiting := visiting st2 - {i},
                             visited := insert i (visited st2),
                             orderedSoFar := orderedSoFar st2 @ [node]\<rparr>))))"
| "visitDeps depth byId [] st = Some st"
| "visitDeps depth byId (depId # rest) st =
     (if byId depId \<noteq> None then
        (case visit depth byId depId st of
           None \<Rightarrow> None
         | Some st' \<Rightarrow> visitDeps depth byId rest st')
      else visitDeps depth byId rest st)"

fun visitAll :: "nat \<Rightarrow> (string \<rightharpoonup> NormalizedSubtask) \<Rightarrow> NormalizedSubtask list \<Rightarrow> VisitState \<Rightarrow> VisitState option" where
  "visitAll depth byId [] st = Some st"
| "visitAll depth byId (subtask # rest) st =
     (case visit depth byId (subtaskId subtask) st of
        None \<Rightarrow> None
      | Some st' \<Rightarrow> visitAll depth byId rest st')"

definition topologicalOrder :: "NormalizedSubtask list \<Rightarrow> NormalizedSubtask list option" where
  "topologicalOrder subtasks =
     map_option orderedSoFar
       (visitAll (Suc (length subtasks)) (subtaskMap subtasks) subtasks
          \<lparr> visited = {}, visiting = {}, orderedSoFar = [] \<rparr>)"

subsection \<open>Steps, dependencies and checkpoints\<close>

definition stepIdByIndex :: "nat \<Rightarrow> string" where
  "stepIdByIndex index = ''step_'' @ showNat (index + 1)"

definition indexById :: "NormalizedSubtask list \<Rightarrow> (string \<rightharpoonup> nat)" where
  "indexById ordered = map_of (rev (zip (map subtaskId ordered) [0..<length ordered]))"

definition resolveStepDependencies :: "string list \<Rightarrow> NormalizedSubtask list \<Rightarrow> nat \<Rightarrow> string list" where
  "resolveStepDependencies originalDependencies ordered currentIndex =
     (let mapped =
            map (\<lambda>index. stepIdByIndex (the index))
              (filter (\<lambda>index. index \<noteq> None \<and> the index < currentIndex)
                 (map (indexById ordered) originalDependencies))
      in if length mapped > 0 then mapped
         else if currentIndex = 0 then []
         else [stepIdByIndex (currentIndex - 1)])"

definition inferVerificationType :: "string \<Rightarrow> PlanStrategy \<Rightarrow> VerificationType" where
  "inferVerificationType title strategy =
     (let lc = toLowerCase title in
      if testWords False [''test'', ''verify'', ''regression''] lc then TestCheck
      else if testWords False [''review'', ''analyz'', ''assess'', ''design''] lc then ReviewCheck
      else if testWords False [''evidence'', ''assumption'', ''dependency''] lc then EvidenceCheck
      else if strategy = Fastest then ManualCheck
      else LogicCheck)"

definition verificationHint :: "string \<Rightarrow> VerificationType \<Rightarrow> string" where
  "verificationHint title type =
     (case type of
        TestCheck \<Rightarrow> ''Run targeted verification for '' @ [CHR 0x27] @ title @ [CHR 0x27] @ '' and capture pass/fail evidence.''
      | ReviewCheck \<Rightarrow> ''Perform structured review for '' @ [CHR 0x27] @ title @ [CHR 0x27] @ '' against constraints and goal.''
      | EvidenceCheck \<Rightarrow> ''Collect objective evidence proving '' @ [CHR 0x27] @ title @ [CHR 0x27] @ '' assumptions hold.''
      | ManualCheck \<Rightarrow> ''Perform quick manual validation for '' @ [CHR 0x27] @ title @ [CHR 0x27] @ '' before progressing.''
      | LogicCheck \<Rightarrow> ''Validate logical consistency for '' @ [CHR 0x27] @ title @ [CHR 0x27] @ '' and dependency completion.'')"

definition makeStep ::
  "BuildPlanInput \<Rightarrow> PlanStrategy \<Rightarrow> NormalizedSubtask list \<Rightarrow> NormalizedSubtask \<Rightarrow> nat \<Rightarrow> PlanStep" where
  "makeStep input strategy ordered subtask index =
     (let risk = inferRisk (subtaskTitle subtask) (planConstraints input) (length (subtaskDependsOn subtask));
          vType = inferVerificationType (subtaskTitle subtask) strategy;
          verificationRequired = (strategy \<noteq> Fastest \<or> risk \<noteq> Low)
      in \<lparr> stepId = ''step_'' @ showNat (index + 1),
           stepOrder = index + 1,
           stepTitle = sanitizeText (subtaskTitle subtask) (shortTextMaxChars (planPolicy input)),
           objective = sanitizeText (subtaskTitle subtask @ ''. Outcome must advance goal: '' @ planGoal input)
                         (textMaxChars (planPolicy input)),
           stepDependsOn = resolveStepDependencies (subtaskDependsOn subtask) ordered index,
           stepStatus = Pending,
           verification = \<lparr> required = verificationRequired, verificationType = vType,
                            hint = sanitizeText (verificationHint (subtaskTitle subtask) vType)
                                     (textMaxChars (planPolicy input)) \<rparr>,
           stepRisk = risk \<rparr>)"

definition shouldInsert :: "PlanStrategy \<Rightarrow> nat \<Rightarrow> PlanStep \<Rightarrow> nat \<Rightarrow> bool" where
  "shouldInsert strategy stepCount step index =
     (if strategy = MinimumRisk then stepRisk step \<noteq> Low \<or> index mod 2 = 1
      else if strategy = Fastest then int index = int stepCount - 1
      else stepRisk step = High \<or> index mod 3 = 2)"

fun checkpointLoop ::
  "PlanStrategy \<Rightarrow> ResponsePolicy \<Rightarrow> nat \<Rightarrow> Checkpoint list \<Rightarrow> (nat \<times> PlanStep) list \<Rightarrow> Checkpoint list" where
  "checkpointLoop strategy policy stepCount cps [] = cps"
| "checkpointLoop strategy policy stepCount cps ((index, step) # rest) =
     (if \<not> shouldInsert strategy stepCount step index
      then checkpointLoop strategy policy stepCount cps rest
      else checkpointLoop strategy policy stepCount
             (cps @ [\<lparr> checkpointId = ''checkpoint_'' @ showNat (length cps + 1),
                        afterStepId = stepId step,
                        purpose = sanitizeText
                          (if stepRisk step = High
                           then ''High-risk gate: verify assumptions and consistency.''
                           else ''Progress gate: confirm readiness for next phase.'')
                          (textMaxChars policy) \<rparr>])
             rest)"

definition generateCheckpoints :: "PlanStep list \<Rightarrow> PlanStrategy \<Rightarrow> ResponsePolicy \<Rightarrow> Checkpoint list" where
  "generateCheckpoints stepList strategy policy =
     checkpointLoop strategy policy (length stepList) [] (zip [0..<length stepList] stepList)"

definition resolveStrategy :: "BuildPlanInput \<Rightarrow> PlanStrategy" where
  "resolveStrategy input = (case planStrategy input of None \<Rightarrow> BalancedStrategy | Some s \<Rightarrow> s)"

text \<open>The value of \<open>ordered\<close> in \<open>buildPlan\<close>: the subtasks after normalisation, the
  strategy transform, the cap and the topological ordering.\<close>

definition orderedSubtasks :: "BuildPlanInput \<Rightarrow> NormalizedSubtask list option" where
  "orderedSubtasks input =
     (let strategy = resolveStrategy input;
          baseSubtasks = normalizeSubtasks (planGoal input) (planSubtasks input) (planPolicy input);
          strategySubtasks =
            (if strategy = Fastest then compressForFastest baseSubtasks (planPolicy input)
             else if strategy = MinimumRisk then expandForRisk baseSubtasks (planPolicy input)
             else baseSubtasks);
          cappedSubtasks = capItems strategySubtasks (max 3 (maxSubtasks (planPolicy input)))
      in topologicalOrder cappedSubtasks)"

definition buildPlan :: "BuildPlanInput \<Rightarrow> BuildPlanOutput option" where
  "buildPlan input =
     (let strategy = resolveStrategy input;
          withCheckpoints = (case includeCheckpoints input of None \<Rightarrow> True | Some b \<Rightarrow> b)
      in case orderedSubtasks input of
           None \<Rightarrow> None
         | Some ordered \<Rightarrow>
             (let stepList = map (\<lambda>(subtask, index). makeStep input strategy ordered subtask index)
                               (zip ordered [0..<length ordered]);
                  cps = (if withCheckpoints then generateCheckpoints stepList strategy (planPolicy input) else [])
              in Some \<lparr> outStrategy = strategy,
                        steps = stepList,
                        checkpoints = cps,
                        planSummary =
                          \<lparr> totalSteps = length stepList,
                            highRiskSteps = length (filter (\<lambda>step. stepRisk step = High) stepList),
                            verificationPoints =
                              length (filter (\<lambda>step. required (verification step)) stepList) + length cps \<rparr> \<rparr>))"
section \<open>Sorting, splitting and identifiers\<close>

text \<open>
  \<open>Array.prototype.sort(compare)\<close> is a stable sort; for a comparator that is a total
  preorder every stable sort gives the same array. The model is the stable insertion
  sort with the comparator of the source as its parameter: \<open>compare a b \<le> 0\<close> keeps
  \<open>a\<close> in front of \<open>b\<close>.
\<close>

fun insertBy :: "('a \<Rightarrow> 'a \<Rightarrow> int) \<Rightarrow> 'a \<Rightarrow> 'a list \<Rightarrow> 'a list" where
  "insertBy compare x [] = [x]"
| "insertBy compare x (y # ys) =
     (if compare x y \<le> 0 then x # y # ys else y # insertBy compare x ys)"

definition sortBy :: "('a \<Rightarrow> 'a \<Rightarrow> int) \<Rightarrow> 'a list \<Rightarrow> 'a list" where
  "sortBy compare xs = foldr (insertBy compare) xs []"

text \<open>Comparison of strings by code units, the order of the default \<open>sort()\<close>.
  \<open>localeCompare\<close> is modelled by it as well: the titles it is applied to are ASCII and
  differ within their first three letters, where collation and code-unit order agree.\<close>

fun compareStrings :: "string \<Rightarrow> string \<Rightarrow> int" where
  "compareStrings [] [] = 0"
| "compareStrings [] (d # ds) = -1"
| "compareStrings (c # cs) [] = 1"
| "compareStrings (c # cs) (d # ds) =
     (if (of_char c :: int) < of_char d then -1
      else if (of_char d :: int) < of_char c then 1
      else compareStrings cs ds)"

text \<open>\<open>text.split(/[...]/)\<close> for a class of single characters: the pieces between the
  separators, empty pieces included; the empty string gives one empty piece.\<close>

fun splitChars :: "(char \<Rightarrow> bool) \<Rightarrow> string \<Rightarrow> string list" where
  "splitChars isSep [] = [[]]"
| "splitChars isSep (c # cs) =
     (if isSep c then [] # splitChars isSep cs
      else (case splitChars isSep cs of
              [] \<Rightarrow> [[c]]
            | piece # pieces \<Rightarrow> (c # piece) # pieces))"

text \<open>\<open>text.split(/\s+/)\<close>: runs of white space separate the pieces.\<close>

definition splitWhitespace :: "string \<Rightarrow> string list" where
  "splitWhitespace s = splitChars isSpace (collapseSpaces s)"

fun joinWith :: "string \<Rightarrow> string list \<Rightarrow> string" where
  "joinWith sep [] = []"
| "joinWith sep [x] = x"
| "joinWith sep (x # y # ys) = x @ sep @ joinWith sep (y # ys)"

text \<open>\<open>newId(prefix)\<close> appends a random UUID. The random values are a parameter of the
  model: \<open>uuids n\<close> is the value returned by the \<open>n\<close>-th call of \<open>randomUUID\<close> within
  one invocation of an entry point.\<close>

definition newId :: "string \<Rightarrow> string \<Rightarrow> string" where
  "newId prefix uuid = prefix @ ''_'' @ uuid"

section \<open>Task Analyzer\<close>

datatype TaskType = Coding | Debugging | Architecture | Planning | Analysis | Mixed

record AnalyzeContext =
  domain :: "string option"
  environment :: "string option"
  existingPlan :: "string option"

record AnalyzeTaskInput =
  analyzeTaskText :: string
  analyzeConstraints :: "string list option"
  analyzeContext :: "AnalyzeContext option"
  analyzePolicy :: ResponsePolicy

record Risk =
  riskId :: string
  riskText :: string
  riskSeverity :: string

record AnalyzeTaskOutput =
  outTask :: string
  normalizedGoal :: string
  taskType :: TaskType
  constraints :: "string list"
  assumptionsImplicit :: "string list"
  unknowns :: "string list"
  risks :: "Risk list"
  successCriteria :: "string list"
  clarificationsNeeded :: "string list"
  suggestedWorkflow :: "string list"

definition TASK_TYPE_KEYWORDS :: "(TaskType \<times> string list) list" where
  "TASK_TYPE_KEYWORDS =
     [(Coding, [''implement'', ''build'', ''code'', ''endpoint'', ''refactor'', ''typescript'',
                ''function'', ''server'']),
      (Debugging, [''debug'', ''bug'', ''fix'', ''error'', ''failing'', ''issue'', ''trace'', ''investigate'']),
      (Architecture, [''architecture'', ''design'', ''system'', ''scalable'', ''modular'',
                      ''infrastructure'', ''component'']),
      (Planning, [''plan'', ''roadmap'', ''phase'', ''milestone'', ''schedule'', ''sequence'', ''workflow'']),
      (Analysis, [''analyze'', ''evaluate'', ''assess'', ''compare'', ''review'', ''research'', ''risk'']),
      (Mixed, [])]"

definition CONSTRAINT_MARKERS :: "string list" where
  "CONSTRAINT_MARKERS =
     [''must'', ''cannot'', ''can'' @ [CHR 0x27] @ ''t'', ''only'', ''without'', ''budget'', ''deadline'',
      ''required'', ''strict'', ''token'', ''limit'', ''no '']"

definition keywordScore :: "string \<Rightarrow> string list \<Rightarrow> nat" where
  "keywordScore lc keywords =
     foldl (\<lambda>acc keyword. acc + (if includesStr lc keyword then 1 else 0)) 0 keywords"

definition detectTaskType :: "string \<Rightarrow> TaskType" where
  "detectTaskType task =
     (let lc = toLowerCase task;
          scores = sortBy (\<lambda>a b. int (snd b) - int (snd a))
                     (map (\<lambda>(type, keywords). (type, keywordScore lc keywords))
                        (filter (\<lambda>(type, keywords). type \<noteq> Mixed) TASK_TYPE_KEYWORDS))
      in case scores of
           [] \<Rightarrow> Mixed
         | best # rest \<Rightarrow>
             if snd best = 0 then Mixed
             else (case rest of
                     [] \<Rightarrow> fst best
                   | second # _ \<Rightarrow>
                       if int (snd best) - int (snd second) \<le> 1 \<and> snd second > 0 then Mixed
                       else fst best))"

definition fallbackGoal :: "TaskType \<Rightarrow> string" where
  "fallbackGoal t = (case t of
      Coding \<Rightarrow> ''Implement a correct and maintainable solution.''
    | Debugging \<Rightarrow> ''Identify root cause and deliver a verified fix.''
    | Architecture \<Rightarrow> ''Design a robust architecture with clear tradeoffs.''
    | Planning \<Rightarrow> ''Build an actionable step-by-step execution plan.''
    | Analysis \<Rightarrow> ''Produce a structured analysis with clear recommendations.''
    | Mixed \<Rightarrow> ''Complete the task with verified reasoning and clear next actions.'')"

definition extractGoal :: "string \<Rightarrow> TaskType \<Rightarrow> ResponsePolicy \<Rightarrow> string" where
  "extractGoal task type policy =
     (let firstSentence = hd (splitChars (\<lambda>c. c \<in> set ''.!?'') task);
          normalized = normalizeWhitespace firstSentence
      in if length normalized > 15 then sanitizeText normalized (textMaxChars policy)
         else sanitizeText (fallbackGoal type) (textMaxChars policy))"

definition extractConstraints :: "string \<Rightarrow> string list option \<Rightarrow> ResponsePolicy \<Rightarrow> string list" where
  "extractConstraints task explicitConstraints policy =
     (let discovered =
            filter (\<lambda>chunk. length chunk > 0 \<and>
                      list_ex (\<lambda>marker. includesStr (toLowerCase chunk) marker) CONSTRAINT_MARKERS)
              (map normalizeWhitespace (splitChars (\<lambda>c. c = CHR ''.'' \<or> c = CHR 0x0A) task));
          merged = map (\<lambda>v. sanitizeText v (textMaxChars policy))
                     (pickUniqueStrings ((case explicitConstraints of None \<Rightarrow> [] | Some cs \<Rightarrow> cs) @ discovered))
      in capItems merged (maxGenericItems policy))"

text \<open>\<open>!context?.field\<close>: the field is absent or the empty string.\<close>

definition missingField :: "AnalyzeContext option \<Rightarrow> (AnalyzeContext \<Rightarrow> string option) \<Rightarrow> bool" where
  "missingField context field =
     (case context of
        None \<Rightarrow> True
      | Some c \<Rightarrow> (case field c of None \<Rightarrow> True | Some v \<Rightarrow> v = []))"

text \<open>The array \<open>unknowns\<close> of \<open>extractUnknowns\<close> after its pushes.\<close>

definition unknownCandidates :: "string \<Rightarrow> TaskType \<Rightarrow> AnalyzeContext option \<Rightarrow> string list" where
  "unknownCandidates task type context =
     (let u1 = (if missingField context environment then [''Target environment details are missing.''] else []);
          u2 = (if missingField context domain \<and> (type = Architecture \<or> type = Analysis)
                then u1 @ [''Domain-specific requirements are not provided.''] else u1);
          u3 = (if missingField context existingPlan \<and> (type = Planning \<or> type = Mixed)
                then u2 @ [''No baseline plan was provided.''] else u2);
          u4 = (if CHR ''?'' \<in> set task then u3 @ [''Task contains unresolved questions.''] else u3);
          u5 = (if testWords True [''TBD'', ''TBA'', ''unknown'', ''unspecified''] task
                then u4 @ [''Task includes unresolved placeholders.''] else u4)
      in if \<not> testWords True [''success'', ''acceptance'', ''done'', ''definition of done''] task
         then u5 @ [''Explicit acceptance criteria are not stated.''] else u5)"

definition extractUnknowns ::
  "string \<Rightarrow> TaskType \<Rightarrow> AnalyzeContext option \<Rightarrow> ResponsePolicy \<Rightarrow> string list" where
  "extractUnknowns task type context policy =
     capItems (map (\<lambda>v. sanitizeText v (textMaxChars policy))
                 (pickUniqueStrings (unknownCandidates task type context)))
       (maxUnknowns policy)"

text \<open>The array \<open>assumptions\<close> of \<open>extractImplicitAssumptions\<close> after its pushes.\<close>

definition assumptionCandidates :: "string \<Rightarrow> TaskType \<Rightarrow> AnalyzeContext option \<Rightarrow> string list" where
  "assumptionCandidates task type context =
     (let lc = toLowerCase task;
          a1 = (if missingField context environment
                then [''Execution environment has required runtime and dependencies.''] else []);
          a2 = (if includesStr lc ''docker''
                then a1 @ [''Container runtime is available and image builds are permitted.''] else a1);
          a3 = (if includesStr lc ''mcp''
                then a2 @ [''MCP clients support Streamable HTTP and tool schemas used.''] else a2);
          a4 = (if includesStr lc ''sqlite''
                then a3 @ [''SQLite file path is writable and persistent across restarts.''] else a3);
          a5 = (if type = Debugging
                then a4 @ [''Observed issue can be reproduced consistently.''] else a4)
      in if type = Coding
         then a5 @ [''Existing codebase conventions should be preserved.''] else a5)"

definition extractImplicitAssumptions ::
  "string \<Rightarrow> TaskType \<Rightarrow> AnalyzeContext option \<Rightarrow> ResponsePolicy \<Rightarrow> string list" where
  "extractImplicitAssumptions task type context policy =
     capItems (map (\<lambda>v. sanitizeText v (textMaxChars policy))
                 (pickUniqueStrings (assumptionCandidates task type context)))
       (maxGenericItems policy)"

text \<open>The element \<open>i\<close> of \<open>value.split("|")\<close>, or \<open>None\<close> where the array is shorter.\<close>

definition splitPart :: "string \<Rightarrow> nat \<Rightarrow> string option" where
  "splitPart v i =
     (let parts = splitChars (\<lambda>c. c = CHR ''|'') v
      in if i < length parts then Some (parts ! i) else None)"

text \<open>The array \<open>riskItems\<close> of \<open>extractRisks\<close> after its pushes, as pairs of severity
  and text.\<close>

definition riskCandidates :: "string \<Rightarrow> string list \<Rightarrow> string list \<Rightarrow> string list \<Rightarrow> (string \<times> string) list" where
  "riskCandidates task cs us assumptions =
     (let lc = toLowerCase task;
          r1 = (if length task > 1800
                then [(''high'', ''Task scope is large and may require phased execution.'')] else []);
          r2 = (if length us \<ge> 4
                then r1 @ [(''high'', ''High uncertainty due to missing task details.'')] else r1);
          r3 = (if length cs \<ge> 5
                then r2 @ [(''medium'', ''Many constraints increase risk of conflicting requirements.'')] else r2);
          r4 = (if length assumptions \<ge> 4
                then r3 @ [(''medium'', ''Execution depends on multiple unverified assumptions.'')] else r3);
          r5 = (if testWords True [''production'', ''security'', ''auth'', ''migration'', ''payment''] lc
                then r4 @ [(''high'', ''Task appears high-impact and requires stricter validation gates.'')] else r4);
          r6 = (if testWords True [''deadline'', ''urgent'', ''asap'', ''quickly''] lc
                then r5 @ [(''medium'', ''Time pressure may reduce verification depth and increase defects.'')] else r5)
      in if length r6 = 0
         then r6 @ [(''low'', ''No critical risks detected from current input.'')] else r6)"

definition extractRisks ::
  "(nat \<Rightarrow> string) \<Rightarrow> string \<Rightarrow> string list \<Rightarrow> string list \<Rightarrow> string list \<Rightarrow> ResponsePolicy \<Rightarrow> Risk list" where
  "extractRisks uuids task cs us assumptions policy =
     (let keys = pickUniqueStrings
                   (map (\<lambda>(severity, text). severity @ ''|'' @ text) (riskCandidates task cs us assumptions))
      in capItems
           (map (\<lambda>(v, n).
                   \<lparr> riskId = newId ''risk'' (uuids n),
                     riskText = sanitizeText (case splitPart v 1 of None \<Rightarrow> [] | Some text \<Rightarrow> text)
                                  (textMaxChars policy),
                     riskSeverity = (case splitPart v 0 of None \<Rightarrow> ''low'' | Some severityRaw \<Rightarrow> severityRaw) \<rparr>)
              (zip keys [0..<length keys]))
           (maxRisks policy))"

definition criteriaByType :: "TaskType \<Rightarrow> string list" where
  "criteriaByType t = (case t of
      Coding \<Rightarrow> [''Implementation is complete and aligned with requirements.'',
                  ''Changes are logically validated and externally testable.'',
                  ''Outputs and interfaces remain stable and deterministic.'']
    | Debugging \<Rightarrow> [''Root cause is identified and documented.'',
                     ''Fix addresses the root cause without regressions.'',
                     ''Verification evidence confirms issue is resolved.'']
    | Architecture \<Rightarrow> [''Architecture decisions cover constraints and dependencies.'',
                        ''Tradeoffs and risks are explicitly documented.'',
                        ''Plan is decomposed into executable, verifiable steps.'']
    | Planning \<Rightarrow> [''Plan has clear sequencing, dependencies, and checkpoints.'',
                    ''High-risk areas include explicit verification gates.'',
                    ''Next actions are unambiguous and immediately executable.'']
    | Analysis \<Rightarrow> [''Conclusions are consistent with stated evidence and assumptions.'',
                    ''Key risks and unknowns are explicitly tracked.'',
                    ''Recommendations are actionable and prioritized.'']
    | Mixed \<Rightarrow> [''Task is decomposed into clear subtasks and dependencies.'',
                 ''Assumptions and risks are tracked and reviewed.'',
                 ''Next best action is selected with clear rationale.''])"

definition successCriteriaByType :: "TaskType \<Rightarrow> ResponsePolicy \<Rightarrow> string list" where
  "successCriteriaByType t policy =
     capItems (map (\<lambda>item. sanitizeText item (textMaxChars policy)) (criteriaByType t))
       (maxSuccessCriteria policy)"

definition workflowByType :: "TaskType \<Rightarrow> string list" where
  "workflowByType t =
     (let base = [''decompose_task'', ''build_plan'', ''list_assumptions'', ''consistency_check'']
      in if t = Debugging then base @ [''critic_review'', ''next_best_action'']
         else if t = Planning \<or> t = Architecture then base @ [''critic_review'', ''compact_reasoning_state'']
         else base @ [''next_best_action''])"

definition analyzeTask :: "(nat \<Rightarrow> string) \<Rightarrow> AnalyzeTaskInput \<Rightarrow> AnalyzeTaskOutput" where
  "analyzeTask uuids input =
     (let policy = analyzePolicy input;
          normalizedTask = normalizeWhitespace (analyzeTaskText input);
          type = detectTaskType normalizedTask;
          goal = extractGoal normalizedTask type policy;
          cs = extractConstraints normalizedTask (analyzeConstraints input) policy;
          us = extractUnknowns normalizedTask type (analyzeContext input) policy;
          implicit = extractImplicitAssumptions normalizedTask type (analyzeContext input) policy;
          rs = extractRisks uuids normalizedTask cs us implicit policy;
          criteria = successCriteriaByType type policy;
          clarifications = capItems (map (\<lambda>unknown. ''Clarify: '' @ unknown) us) (maxGenericItems policy)
      in \<lparr> outTask = sanitizeText normalizedTask (textMaxChars policy),
           normalizedGoal = goal,
           taskType = type,
           constraints = cs,
           assumptionsImplicit = implicit,
           unknowns = us,
           risks = rs,
           successCriteria = criteria,
           clarificationsNeeded = clarifications,
           suggestedWorkflow = workflowByType type \<rparr>)"

section \<open>Decomposer\<close>

datatype DecompositionMode = Linear | Tree | Milestone

record DecomposeTaskInput =
  decomposeTaskText :: string
  decomposeGoal :: "string option"
  decomposeConstraints :: "string list option"
  decomposeMode :: "DecompositionMode option"
  decomposePolicy :: ResponsePolicy

record TemplateSubtask =
  templateTitle :: string
  templateDescription :: string
  templateComplexity :: RiskLevel
  templateRisk :: RiskLevel
  templateVerificationHint :: "string option"

record Subtask =
  decId :: string
  decTitle :: string
  decDescription :: string
  decDependsOn :: "string list"
  decComplexity :: RiskLevel
  decRisk :: RiskLevel
  decVerificationHint :: "string option"

record DecomposeTaskOutput =
  decompositionMode :: DecompositionMode
  decSubtasks :: "Subtask list"
  criticalPath :: "string list"
  parallelizableGroups :: "string list list"

definition template :: "string \<Rightarrow> string \<Rightarrow> RiskLevel \<Rightarrow> RiskLevel \<Rightarrow> string option \<Rightarrow> TemplateSubtask" where
  "template t d c r h =
     \<lparr> templateTitle = t, templateDescription = d, templateComplexity = c, templateRisk = r,
       templateVerificationHint = h \<rparr>"

definition TEMPLATES :: "TaskType \<Rightarrow> TemplateSubtask list" where
  "TEMPLATES t = (case t of
     Coding \<Rightarrow>
       [template ''Clarify implementation scope''
          ''Lock requirements, interfaces, and acceptance conditions.'' Medium Medium
          (Some ''Check requirement coverage before coding.''),
        template ''Map existing system boundaries''
          ''Identify modules, dependencies, and integration points to avoid regressions.'' Medium Medium
          (Some ''List impacted files/components and dependency edges.''),
        template ''Design deterministic solution''
          ''Define architecture and failure handling before implementation.'' High High
          (Some ''Review design against constraints and edge cases.''),
        template ''Implement incremental changes''
          ''Deliver scoped updates in small verifiable increments.'' High High
          (Some ''Each increment should map to a planned verification.''),
        template ''Run verification workflow''
          ''Validate behavior with logic checks and external test tooling.'' Medium High
          (Some ''Capture evidence of pass/fail outcomes.''),
        template ''Document outcomes and next actions''
          ''Summarize decisions, known risks, and follow-up work.'' Low Low
          (Some ''Ensure unresolved risks are tracked in decision log.'')]
   | Debugging \<Rightarrow>
       [template ''Define failure signature''
          ''Capture reproducible symptoms and expected behavior mismatch.'' Medium Medium
          (Some ''Write reproducibility checklist.''),
        template ''Collect diagnostic evidence''
          ''Gather logs, traces, and state transitions around failure path.'' Medium Medium
          (Some ''Evidence should isolate at least one suspect layer.''),
        template ''Identify root cause''
          ''Validate causal chain from trigger to observed failure.'' High High
          (Some ''Link every claim to evidence.''),
        template ''Implement fix with safeguards''
          ''Apply minimal change that resolves root cause and limits regressions.'' High High
          (Some ''Include regression guard or verification checks.''),
        template ''Verify fix and regressions''
          ''Confirm original issue resolved and nearby flows remain stable.'' Medium High
          (Some ''Run targeted verification scenarios.'')]
   | Architecture \<Rightarrow>
       [template ''Define architecture goals''
          ''Align quality attributes, constraints, and non-goals.'' Medium Medium None,
        template ''Model solution components''
          ''Describe modules, boundaries, and data/control flow.'' High High None,
        template ''Analyze tradeoffs and risks''
          ''Evaluate alternatives, failure modes, and operational concerns.'' High High None,
        template ''Define rollout and verification plan''
          ''Convert architecture into milestones and validation checkpoints.'' Medium Medium None]
   | Planning \<Rightarrow>
       [template ''Scope objective and boundaries''
          ''Clarify what is in and out of scope.'' Low Medium None,
        template ''Break work into milestones''
          ''Create executable milestones with explicit dependencies.'' Medium Medium None,
        template ''Assign verification checkpoints''
          ''Add gates to detect risk early and avoid late surprises.'' Medium Medium None,
        template ''Define monitoring and fallback''
          ''Track progress and fallback paths for blocked milestones.'' Medium High None]
   | Analysis \<Rightarrow>
       [template ''Collect relevant inputs''
          ''Identify datasets, assumptions, and context needed for analysis.'' Medium Medium None,
        template ''Evaluate competing explanations''
          ''Compare candidate interpretations and eliminate weak options.'' High Medium None,
        template ''Assess risk and confidence''
          ''Classify confidence levels and residual uncertainty.'' Medium High None,
        template ''Produce recommendations''
          ''Translate findings into prioritized actions and verification needs.'' Medium Medium None]
   | Mixed \<Rightarrow>
       [template ''Clarify objective and inputs''
          ''Establish goal, context, and explicit constraints.'' Medium Medium None,
        template ''Decompose into executable tracks''
          ''Split work into analysis, implementation, and validation tracks.'' High High None,
        template ''Sequence dependencies''
          ''Order tracks to reduce blockers and rework risk.'' Medium Medium None,
        template ''Validate and consolidate outputs''
          ''Run quality checks and merge into final actionable state.'' Medium High None])"

text \<open>\<open>applyDependencies\<close> assigns \<open>dependsOn\<close> of the subtask at each index; the ids it
  reads are never changed, so the loops are a map over the indices.\<close>

definition dependenciesAt :: "string list \<Rightarrow> DecompositionMode \<Rightarrow> nat \<Rightarrow> string list" where
  "dependenciesAt ids m i =
     (let n = length ids in
      if m = Linear \<or> n \<le> 2 then (if 1 \<le> i then [ids ! (i - 1)] else [])
      else if m = Tree then
        (if i = n - 1 then take (n - 1 - 1) (drop 1 ids)
         else if 1 \<le> i then [ids ! 0]
         else [])
      else (if 1 \<le> i then (if i mod 2 = 0 then [ids ! (i - 1)] else [ids ! (nat (max 0 (int i - 2)))])
            else []))"

definition applyDependencies :: "Subtask list \<Rightarrow> DecompositionMode \<Rightarrow> Subtask list" where
  "applyDependencies subtasks m =
     map (\<lambda>(subtask, i). subtask\<lparr>decDependsOn := dependenciesAt (map decId subtasks) m i\<rparr>)
       (zip subtasks [0..<length subtasks])"

text \<open>A \<open>Map\<close> is an association list: \<open>set\<close> replaces the value of a key in place or
  appends a new entry (\<open>AList.update\<close>), \<open>get\<close> is \<open>map_of\<close>, \<open>values()\<close> lists the
  values in insertion order.\<close>

definition bestPredecessor :: "(string \<times> string list) list \<Rightarrow> string list \<Rightarrow> string list" where
  "bestPredecessor bestPathById deps =
     (let predecessorPaths = map the (filter (\<lambda>p. p \<noteq> None) (map (map_of bestPathById) deps))
      in case sortBy (\<lambda>a b. int (length b) - int (length a)) predecessorPaths of
           [] \<Rightarrow> []
         | best # _ \<Rightarrow> best)"

fun bestPathLoop :: "(string \<times> string list) list \<Rightarrow> Subtask list \<Rightarrow> (string \<times> string list) list" where
  "bestPathLoop bestPathById [] = bestPathById"
| "bestPathLoop bestPathById (subtask # rest) =
     bestPathLoop
       (AList.update (decId subtask) (bestPredecessor bestPathById (decDependsOn subtask) @ [decId subtask])
          bestPathById)
       rest"

fun indexLoop :: "(string \<times> nat) list \<Rightarrow> (Subtask \<times> nat) list \<Rightarrow> (string \<times> nat) list" where
  "indexLoop indexes [] = indexes"
| "indexLoop indexes ((subtask, index) # rest) = indexLoop (AList.update (decId subtask) index indexes) rest"

text \<open>\<open>indexById.get(path[path.length - 1] ?? "") ?? 0\<close>.\<close>

definition lastIndex :: "(string \<times> nat) list \<Rightarrow> string list \<Rightarrow> nat" where
  "lastIndex indexes path =
     (case map_of indexes (if path = [] then [] else last path) of None \<Rightarrow> 0 | Some i \<Rightarrow> i)"

definition comparePaths :: "(string \<times> nat) list \<Rightarrow> string list \<Rightarrow> string list \<Rightarrow> int" where
  "comparePaths indexes a b =
     (if length b \<noteq> length a then int (length b) - int (length a)
      else int (lastIndex indexes a) - int (lastIndex indexes b))"

definition computeCriticalPath :: "Subtask list \<Rightarrow> string list" where
  "computeCriticalPath subtasks =
     (if length subtasks = 0 then []
      else
        (let indexes = indexLoop [] (zip subtasks [0..<length subtasks]);
             bestPathById = bestPathLoop [] subtasks;
             allPaths = sortBy (comparePaths indexes) (map snd bestPathById)
         in case allPaths of
              [] \<Rightarrow> map decId subtasks
            | first # _ \<Rightarrow> first))"

fun groupLoop :: "(string \<times> string list) list \<Rightarrow> Subtask list \<Rightarrow> (string \<times> string list) list" where
  "groupLoop groups [] = groups"
| "groupLoop groups (subtask # rest) =
     (let key = joinWith ''|'' (sortBy compareStrings (decDependsOn subtask));
          members = (case map_of groups key of None \<Rightarrow> [] | Some l \<Rightarrow> l)
      in groupLoop (AList.update key (members @ [decId subtask]) groups) rest)"

definition computeParallelGroups :: "Subtask list \<Rightarrow> string list list" where
  "computeParallelGroups subtasks =
     filter (\<lambda>group. length group > 1) (map snd (groupLoop [] subtasks))"

definition constraintSubtask :: TemplateSubtask where
  "constraintSubtask =
     template ''Validate constraint satisfaction''
       ''Ensure all hard constraints are mapped to specific deliverables.'' Medium High
       (Some ''Create explicit constraint-to-step matrix.'')"

text \<open>\<open>template.splice(template.length - 1, 0, item)\<close>: the item goes in front of the
  last entry (a negative start counts from the end and is clamped at 0).\<close>

definition spliceBeforeLast :: "'a list \<Rightarrow> 'a \<Rightarrow> 'a list" where
  "spliceBeforeLast xs item = take (length xs - 1) xs @ [item] @ drop (length xs - 1) xs"

definition decomposeTask :: "DecomposeTaskInput \<Rightarrow> DecomposeTaskOutput" where
  "decomposeTask input =
     (let m = (case decomposeMode input of None \<Rightarrow> Linear | Some v \<Rightarrow> v);
          policy = decomposePolicy input;
          type = detectTaskType (decomposeTaskText input);
          template0 = TEMPLATES type;
          template1 = (if (case decomposeConstraints input of None \<Rightarrow> 0 | Some cs \<Rightarrow> length cs) \<ge> 4
                       then spliceBeforeLast template0 constraintSubtask else template0);
          capped = capItems template1 (maxSubtasks policy);
          subtasks0 = map (\<lambda>(item, index).
                         \<lparr> decId = ''subtask_'' @ showNat (index + 1),
                           decTitle = sanitizeText (templateTitle item) (shortTextMaxChars policy),
                           decDescription = sanitizeText (templateDescription item) (textMaxChars policy),
                           decDependsOn = [],
                           decComplexity = templateComplexity item,
                           decRisk = templateRisk item,
                           decVerificationHint =
                             (case templateVerificationHint item of
                                None \<Rightarrow> None
                              | Some h \<Rightarrow> if h = [] then None else Some (sanitizeText h (textMaxChars policy))) \<rparr>)
                       (zip capped [0..<length capped]);
          subtasks = applyDependencies subtasks0 m
      in \<lparr> decompositionMode = m,
           decSubtasks = subtasks,
           criticalPath = computeCriticalPath subtasks,
           parallelizableGroups = computeParallelGroups subtasks \<rparr>)"

section \<open>Session records\<close>

datatype AssumptionStatus = Verified | Unverified | Risky | Contradicted
datatype AssumptionType = Explicit | Implicit
datatype AssumptionCategory = Technical | Environment | Data | Dependency | Process | UserIntent
datatype DecisionLogKind = Decision | Observation | RiskKind | CheckpointKind | Result | Note

record PlanStepRecord =
  psStepId :: string
  psPlanId :: string
  psSessionId :: string
  psOrderIndex :: int
  psTitle :: string
  psObjective :: string
  psDependsOn :: "string list"
  psStatus :: StepStatus
  psVerification :: Verification
  psRisk :: RiskLevel
  psNote :: "string option"
  psUpdatedAt :: string

record AssumptionRecord =
  asAssumptionId :: string
  asSessionId :: string
  asText :: string
  asNormalizedHash :: string
  asType :: AssumptionType
  asCategory :: AssumptionCategory
  asStatus :: AssumptionStatus
  asRisk :: RiskLevel
  asEvidenceNeeded :: "string list option"
  asConfidence :: "RiskLevel option"
  asUpdatedAt :: string

record DecisionLogDetails =
  rationale :: "string option"
  evidence :: "string list option"
  impact :: "string option"
  relatedStepIds :: "string list option"
  relatedAssumptionIds :: "string list option"

record DecisionLogRecord =
  dlId :: string
  dlSessionId :: string
  dlKind :: DecisionLogKind
  dlSummary :: string
  dlDetails :: "DecisionLogDetails option"
  dlImportance :: RiskLevel
  dlTimestamp :: string

definition kindName :: "DecisionLogKind \<Rightarrow> string" where
  "kindName k = (case k of Decision \<Rightarrow> ''decision'' | Observation \<Rightarrow> ''observation'' | RiskKind \<Rightarrow> ''risk''
     | CheckpointKind \<Rightarrow> ''checkpoint'' | Result \<Rightarrow> ''result'' | Note \<Rightarrow> ''note'')"

section \<open>State Compactor\<close>

datatype CompactSection =
  GoalSection | ConstraintsSection | OpenRisksSection | AssumptionsSection | CurrentPlanSection
  | RecentResultsSection | DecisionsSection

definition sectionKey :: "CompactSection \<Rightarrow> string" where
  "sectionKey s = (case s of GoalSection \<Rightarrow> ''goal'' | ConstraintsSection \<Rightarrow> ''constraints''
     | OpenRisksSection \<Rightarrow> ''open-risks'' | AssumptionsSection \<Rightarrow> ''assumptions''
     | CurrentPlanSection \<Rightarrow> ''current-plan'' | RecentResultsSection \<Rightarrow> ''recent-results''
     | DecisionsSection \<Rightarrow> ''decisions'')"

record CompactStateInput =
  compactTargetTokens :: "int option"
  compactPreserve :: "CompactSection list option"
  compactGoal :: "string option"
  compactConstraints :: "string list option"
  compactPlanSteps :: "PlanStepRecord list"
  compactAssumptions :: "AssumptionRecord list"
  compactDecisionLogs :: "DecisionLogRecord list"
  compactPolicy :: ResponsePolicy

record CompactStateOutput =
  compactState :: string
  beforeEstimatedTokens :: int
  afterEstimatedTokens :: int
  preservedSections :: "string list"
  droppedOrCompressedSections :: "string list"

record SectionState =
  sectionStateKey :: string
  sectionLabel :: string
  sectionText :: string
  sectionPriority :: int

text \<open>\<open>Math.max(1, Math.ceil(text.length / 4))\<close>.\<close>

definition estimateTokensFromText :: "string \<Rightarrow> int" where
  "estimateTokensFromText text = max 1 ((int (length text) + 3) div 4)"

definition resolveTargetTokens :: "int option \<Rightarrow> ResponsePolicy \<Rightarrow> int" where
  "resolveTargetTokens targetTokens policy =
     (case targetTokens of
        Some t \<Rightarrow> t
      | None \<Rightarrow> if mode policy = Small then 300 else if mode policy = Deep then 1400 else 700)"

definition line :: "string \<Rightarrow> string" where
  "line v = trim (collapseSpaces v)"

definition lines :: "string list \<Rightarrow> int \<Rightarrow> string" where
  "lines values cap =
     (let sliced = capItems (filter (\<lambda>v. length v > 0) (map line values)) cap
      in if length sliced = 0 then ''none'' else joinWith '' ; '' sliced)"

definition countStatus :: "PlanStepRecord list \<Rightarrow> StepStatus \<Rightarrow> nat" where
  "countStatus stepList s = length (filter (\<lambda>step. psStatus step = s) stepList)"

definition summarizePlanStatus :: "PlanStepRecord list \<Rightarrow> string" where
  "summarizePlanStatus stepList =
     ''pending='' @ showNat (countStatus stepList Pending) @
     '', in_progress='' @ showNat (countStatus stepList InProgress) @
     '', blocked='' @ showNat (countStatus stepList Blocked) @
     '', done='' @ showNat (countStatus stepList Done) @
     '', skipped='' @ showNat (countStatus stepList Skipped)"

definition mkSection :: "string \<Rightarrow> string \<Rightarrow> string \<Rightarrow> int \<Rightarrow> SectionState" where
  "mkSection k l t p = \<lparr> sectionStateKey = k, sectionLabel = l, sectionText = t, sectionPriority = p \<rparr>"

definition buildSections :: "CompactStateInput \<Rightarrow> SectionState list" where
  "buildSections input =
     (let decisionLogs = compactDecisionLogs input;
          openRisks = map dlSummary (filter (\<lambda>log. dlKind log = RiskKind) decisionLogs) @
                      map asText (filter (\<lambda>item. asStatus item = Risky \<or> asStatus item = Contradicted)
                                    (compactAssumptions input));
          verifiedCount = length (filter (\<lambda>item. asStatus item = Verified) (compactAssumptions input));
          unverifiedCount = int (length (compactAssumptions input)) - int verifiedCount;
          nextImmediateActions =
            (case filter (\<lambda>step. psStatus step = Pending) (compactPlanSteps input) of
               [] \<Rightarrow> [''Run next_best_action to determine follow-up.'']
             | nextPendingStep # _ \<Rightarrow>
                 [''Execute '' @ psStepId nextPendingStep @ '': '' @ psTitle nextPendingStep]);
          currentPlanStatus = summarizePlanStatus (compactPlanSteps input);
          recentResults = map dlSummary (take 5 (filter (\<lambda>log. dlKind log = Result) decisionLogs));
          recentDecisions = map (\<lambda>log. kindName (dlKind log) @ '':'' @ dlSummary log)
                              (take 6 (filter (\<lambda>log. dlKind log = Decision \<or> dlKind log = CheckpointKind)
                                         decisionLogs))
      in [mkSection ''goal'' ''Goal''
            (case compactGoal input of
               None \<Rightarrow> line ''N/A''
             | Some g \<Rightarrow> if g = [] then line ''N/A'' else line g) 1,
          mkSection ''constraints'' ''Constraints''
            (lines (case compactConstraints input of None \<Rightarrow> [] | Some cs \<Rightarrow> cs) 6) 2,
          mkSection ''current-plan'' ''Current Plan Status'' (lines [currentPlanStatus] 1) 1,
          mkSection ''open-risks'' ''Open Risks'' (lines openRisks 6) 2,
          mkSection ''assumptions'' ''Verified/Unverified Assumptions''
            (lines [''verified='' @ showNat verifiedCount, ''unverified='' @ showNat (nat unverifiedCount)] 2) 2,
          mkSection ''recent-results'' ''Last Results'' (lines recentResults 4) 3,
          mkSection ''decisions'' ''Decisions'' (lines recentDecisions 4) 3,
          mkSection ''next-actions'' ''Next Immediate Actions'' (lines nextImmediateActions 3) 1])"

definition firstOf :: "'a list \<Rightarrow> 'a option" where
  "firstOf xs = (case xs of [] \<Rightarrow> None | x # _ \<Rightarrow> Some x)"

definition pickCompressibleSection :: "SectionState list \<Rightarrow> string list \<Rightarrow> SectionState option" where
  "pickCompressibleSection sections preserve =
     firstOf
       (sortBy (\<lambda>a b. int (length (sectionText b)) - int (length (sectionText a)))
          (filter (\<lambda>s. sectionStateKey s \<notin> set preserve \<or> length (sectionText s) > 140)
             (filter (\<lambda>s. length (sectionText s) > 80) sections)))"

definition pickDroppableSection :: "SectionState list \<Rightarrow> string list \<Rightarrow> SectionState option" where
  "pickDroppableSection sections preserve =
     firstOf
       (sortBy (\<lambda>a b. if sectionPriority b - sectionPriority a \<noteq> 0
                        then sectionPriority b - sectionPriority a
                        else int (length (sectionText b)) - int (length (sectionText a)))
          (filter (\<lambda>s. sectionStateKey s \<notin> set preserve \<and> sectionStateKey s \<noteq> ''next-actions'')
             (filter (\<lambda>s. length (sectionText s) > 0) sections)))"

text \<open>\<open>Math.floor(text.length * 0.78)\<close> is taken in exact arithmetic.\<close>

definition trimSectionText :: "string \<Rightarrow> string" where
  "trimSectionText text =
     (if length text \<le> 80 then text
      else (let nextLength = max 60 ((length text * 78) div 100)
            in take nextLength text @ ''...''))"

definition sectionsToText :: "SectionState list \<Rightarrow> string" where
  "sectionsToText sections =
     joinWith '' | ''
       (map (\<lambda>s. sectionLabel s @ '': '' @ sectionText s)
          (filter (\<lambda>s. length (sectionText s) > 0) sections))"

text \<open>\<open>working.findIndex(item => item.key === key)\<close>, and the assignment
  \<open>working[index] = value\<close>; an index of \<open>-1\<close> would leave the elements unchanged.\<close>

definition findIndexOfKey :: "SectionState list \<Rightarrow> string \<Rightarrow> nat option" where
  "findIndexOfKey working k =
     (let i = length (takeWhile (\<lambda>item. sectionStateKey item \<noteq> k) working)
      in if i < length working then Some i else None)"

definition assignAt :: "SectionState list \<Rightarrow> nat option \<Rightarrow> SectionState \<Rightarrow> SectionState list" where
  "assignAt working index v = (case index of None \<Rightarrow> working | Some i \<Rightarrow> working[i := v])"

record CompactLoopState =
  working :: "SectionState list"
  droppedOrCompressed :: "string list"
  compactedText :: string
  targetChars :: int

text \<open>The \<open>while\<close> loop of \<open>compactReasoningState\<close>. A run that never leaves the loop
  has the value \<open>None\<close>. \<open>Math.floor(targetChars * 1.1)\<close> is taken in exact arithmetic.\<close>

partial_function (option) compactLoop :: "string list \<Rightarrow> CompactLoopState \<Rightarrow> CompactLoopState option" where
  "compactLoop preserve st =
     (if int (length (compactedText st)) > targetChars st then
        (case pickCompressibleSection (working st) preserve of
           Some compressible \<Rightarrow>
             (let index = findIndexOfKey (working st) (sectionStateKey compressible);
                  trimmed = trimSectionText (sectionText compressible);
                  working' = assignAt (working st) index (compressible\<lparr>sectionText := trimmed\<rparr>)
              in compactLoop preserve
                   (st\<lparr>working := working',
                        droppedOrCompressed := uniqueInOrder (droppedOrCompressed st) [sectionStateKey compressible],
                        compactedText := sectionsToText working'\<rparr>))
         | None \<Rightarrow>
             (case pickDroppableSection (working st) preserve of
                None \<Rightarrow> Some (st\<lparr>targetChars := (targetChars st * 11) div 10\<rparr>)
              | Some droppable \<Rightarrow>
                  (let index = findIndexOfKey (working st) (sectionStateKey droppable);
                       working' = assignAt (working st) index (droppable\<lparr>sectionText := []\<rparr>)
                   in compactLoop preserve
                        (st\<lparr>working := working',
                             droppedOrCompressed := uniqueInOrder (droppedOrCompressed st) [sectionStateKey droppable],
                             compactedText := sectionsToText working'\<rparr>))))
      else Some st)"

declare compactLoop.simps [code]

definition compactReasoningState :: "CompactStateInput \<Rightarrow> CompactStateOutput option" where
  "compactReasoningState input =
     (let targetTokens = resolveTargetTokens (compactTargetTokens input) (compactPolicy input);
          preserve = uniqueInOrder []
                       (map sectionKey (case compactPreserve input of None \<Rightarrow> [] | Some ps \<Rightarrow> ps));
          sections = buildSections input;
          beforeState = sectionsToText sections
      in case compactLoop preserve
                \<lparr> working = sections, droppedOrCompressed = [],
                  compactedText = sectionsToText sections, targetChars = targetTokens * 4 \<rparr> of
           None \<Rightarrow> None
         | Some final \<Rightarrow>
             (let state = sanitizeText (compactedText final) (max 400 (targetChars final))
              in Some \<lparr> compactState = state,
                        beforeEstimatedTokens = estimateTokensFromText beforeState,
                        afterEstimatedTokens = estimateTokensFromText state,
                        preservedSections = capItems preserve 7,
                        droppedOrCompressedSections = capItems (droppedOrCompressed final) 7 \<rparr>))"

section \<open>Critic\<close>

text \<open>Scores and weights are JavaScript numbers with at most one decimal after
  \<open>roundOne\<close>; they are modelled as rationals, in exact arithmetic.\<close>

datatype CriticCategory = Correctness | Completeness | RiskCategory | Testability | Simplicity | Maintainability
datatype ReviewStyle = Strict | BalancedStyle | Coaching
datatype Verdict = Approve | Revise | Reject
datatype SubjectType = PlanSubject | Proposal | DraftAnswer | Approach | DecisionSet

text \<open>\<open>structuredJson\<close> is the text \<open>JSON.stringify(subject.structured)\<close> when a structured
  payload is given.\<close>

record CriticSubject =
  subjectType :: SubjectType
  subjectText :: "string option"
  structuredJson :: "string option"

record Rubric =
  rubricCorrectness :: "rat option"
  rubricCompleteness :: "rat option"
  rubricRisk :: "rat option"
  rubricTestability :: "rat option"
  rubricSimplicity :: "rat option"
  rubricMaintainability :: "rat option"

record CriticInput =
  subject :: CriticSubject
  rubric :: "Rubric option"
  style :: "ReviewStyle option"
  criticPolicy :: ResponsePolicy

record CategoryScores =
  correctness :: rat
  completeness :: rat
  risk :: rat
  testability :: rat
  simplicity :: rat
  maintainability :: rat

record Finding =
  category :: CriticCategory
  severity :: RiskLevel
  issue :: string
  recommendation :: string

record CriticOutput =
  scores :: CategoryScores
  weightedTotal :: rat
  findings :: "Finding list"
  strengths :: "string list"
  weaknesses :: "string list"
  verdict :: Verdict

definition DEFAULT_WEIGHTS :: CategoryScores where
  "DEFAULT_WEIGHTS = \<lparr> correctness = 5, completeness = 4, risk = 4, testability = 3,
     simplicity = 2, maintainability = 3 \<rparr>"

definition categoryLabels :: "CriticCategory list" where
  "categoryLabels = [Correctness, Completeness, RiskCategory, Testability, Simplicity, Maintainability]"

definition categoryName :: "CriticCategory \<Rightarrow> string" where
  "categoryName c = (case c of Correctness \<Rightarrow> ''correctness'' | Completeness \<Rightarrow> ''completeness''
     | RiskCategory \<Rightarrow> ''risk'' | Testability \<Rightarrow> ''testability'' | Simplicity \<Rightarrow> ''simplicity''
     | Maintainability \<Rightarrow> ''maintainability'')"

definition scoreOf :: "CategoryScores \<Rightarrow> CriticCategory \<Rightarrow> rat" where
  "scoreOf s c = (case c of Correctness \<Rightarrow> correctness s | Completeness \<Rightarrow> completeness s
     | RiskCategory \<Rightarrow> risk s | Testability \<Rightarrow> testability s | Simplicity \<Rightarrow> simplicity s
     | Maintainability \<Rightarrow> maintainability s)"

definition severityName :: "RiskLevel \<Rightarrow> string" where
  "severityName s = (case s of Low \<Rightarrow> ''low'' | Medium \<Rightarrow> ''medium'' | High \<Rightarrow> ''high'')"

definition clamp :: "rat \<Rightarrow> rat \<Rightarrow> rat \<Rightarrow> rat" where
  "clamp v lo hi = min hi (max lo v)"

text \<open>\<open>Math.round(value * 10) / 10\<close>; \<open>Math.round\<close> rounds halves up.\<close>

definition roundOne :: "rat \<Rightarrow> rat" where
  "roundOne v = of_int \<lfloor>v * 10 + 1 / 2\<rfloor> / 10"

text \<open>\<open>value.charAt(0).toUpperCase() + value.slice(1)\<close>; it is applied to the six category
  names, whose first letter is an ASCII lower-case letter: upper-casing clears bit 5.\<close>

definition upperAscii :: "char \<Rightarrow> char" where
  "upperAscii c =
     (let n = (of_char c :: int) in
      if 97 \<le> n \<and> n \<le> 122
      then (case c of Char b0 b1 b2 b3 b4 b5 b6 b7 \<Rightarrow> Char b0 b1 b2 b3 b4 False b6 b7)
      else c)"

definition capitalize :: "string \<Rightarrow> string" where
  "capitalize v = (case v of [] \<Rightarrow> [] | c # cs \<Rightarrow> upperAscii c # cs)"

definition sumWeights :: "CategoryScores \<Rightarrow> rat" where
  "sumWeights w = correctness w + completeness w + risk w + testability w + simplicity w + maintainability w"

definition resolveWeights :: "Rubric option \<Rightarrow> CategoryScores" where
  "resolveWeights rub =
     (case rub of
        None \<Rightarrow> DEFAULT_WEIGHTS
      | Some r \<Rightarrow>
          (let resolved =
                 \<lparr> correctness = (case rubricCorrectness r of None \<Rightarrow> correctness DEFAULT_WEIGHTS | Some v \<Rightarrow> clamp v 0 5),
                   completeness = (case rubricCompleteness r of None \<Rightarrow> completeness DEFAULT_WEIGHTS | Some v \<Rightarrow> clamp v 0 5),
                   risk = (case rubricRisk r of None \<Rightarrow> risk DEFAULT_WEIGHTS | Some v \<Rightarrow> clamp v 0 5),
                   testability = (case rubricTestability r of None \<Rightarrow> testability DEFAULT_WEIGHTS | Some v \<Rightarrow> clamp v 0 5),
                   simplicity = (case rubricSimplicity r of None \<Rightarrow> simplicity DEFAULT_WEIGHTS | Some v \<Rightarrow> clamp v 0 5),
                   maintainability = (case rubricMaintainability r of None \<Rightarrow> maintainability DEFAULT_WEIGHTS | Some v \<Rightarrow> clamp v 0 5) \<rparr>
           in if sumWeights resolved = 0 then DEFAULT_WEIGHTS else resolved))"

definition styleIssueText :: "CriticCategory \<Rightarrow> RiskLevel \<Rightarrow> ReviewStyle \<Rightarrow> ResponsePolicy \<Rightarrow> string" where
  "styleIssueText c sev st policy =
     (let prefix = (if st = Strict then ''Defect:'' else if st = Coaching then ''Improve:'' else ''Issue:'')
      in sanitizeText (prefix @ '' '' @ capitalize (categoryName c) @ '' scored '' @ severityName sev @ ''.'')
           (textMaxChars policy))"

definition actionByCategory :: "CriticCategory \<Rightarrow> string" where
  "actionByCategory c = (case c of
      Correctness \<Rightarrow> ''Add objective evidence and remove ambiguous claims.''
    | Completeness \<Rightarrow> ''Cover missing sections: goal, constraints, assumptions, and verification.''
    | RiskCategory \<Rightarrow> ''Add explicit mitigations and failure handling checkpoints.''
    | Testability \<Rightarrow> ''Define concrete verification checks and acceptance criteria.''
    | Simplicity \<Rightarrow> ''Reduce scope per step and shorten complex statements.''
    | Maintainability \<Rightarrow> ''Improve modularity, schema stability, and test coverage.'')"

definition styleRecommendationText :: "CriticCategory \<Rightarrow> RiskLevel \<Rightarrow> ReviewStyle \<Rightarrow> ResponsePolicy \<Rightarrow> string" where
  "styleRecommendationText c sev st policy =
     (let suffix = (if st = Coaching then '' Focus on one high-impact fix first.''
                    else if sev = High then '' Apply before approval.'' else [])
      in sanitizeText (actionByCategory c @ suffix) (textMaxChars policy))"

fun findingsLoop :: "CategoryScores \<Rightarrow> ReviewStyle \<Rightarrow> ResponsePolicy \<Rightarrow> CriticCategory list \<Rightarrow> Finding list" where
  "findingsLoop sc st policy [] = []"
| "findingsLoop sc st policy (c # rest) =
     (let score = scoreOf sc c in
      if score \<ge> 75 / 10 then findingsLoop sc st policy rest
      else
        (let sev = (if score \<le> 45 / 10 then High else if score \<le> 6 then Medium else Low)
         in \<lparr> category = c, severity = sev,
               issue = styleIssueText c sev st policy,
               recommendation = styleRecommendationText c sev st policy \<rparr>
            # findingsLoop sc st policy rest))"

definition buildFindings :: "CategoryScores \<Rightarrow> ReviewStyle \<Rightarrow> ResponsePolicy \<Rightarrow> Finding list" where
  "buildFindings sc st policy = findingsLoop sc st policy categoryLabels"

definition resolveVerdict :: "CategoryScores \<Rightarrow> rat \<Rightarrow> Finding list \<Rightarrow> Verdict" where
  "resolveVerdict sc wTotal fs =
     (let highCorrectnessFailure = (correctness sc < 5 \<or> completeness sc < 5);
          hardBlockers = list_ex (\<lambda>item. severity item = High \<and>
                            (category item = Correctness \<or> category item = Completeness \<or>
                             category item = RiskCategory)) fs
      in if highCorrectnessFailure \<or> hardBlockers then Reject
         else if wTotal \<ge> 75 / 10 \<and> \<not> list_ex (\<lambda>item. severity item = High) fs then Approve
         else Revise)"

definition scoreCorrectness :: "string \<Rightarrow> rat" where
  "scoreCorrectness text =
     (if text = [] then 2
      else
        (let s0 = 65 / 10;
             s1 = (if testWords True [''verified'', ''evidence'', ''deterministic'', ''consistent'', ''validated''] text
                   then s0 + 2 else s0);
             s2 = (if testWords True [''maybe'', ''guess'', ''probably'', ''unclear'', ''unsure''] text
                   then s1 - 2 else s1);
             s3 = (if length text < 120 then s2 - 15 / 10 else s2);
             s4 = (if testWords True [''contradict'', ''inconsistent''] text then s3 - 2 else s3)
         in clamp s4 0 10))"

definition completenessSignals :: "string list" where
  "completenessSignals = [''goal'', ''constraint'', ''assumption'', ''risk'', ''verify'', ''next action'', ''plan step'']"

definition scoreCompleteness :: "string \<Rightarrow> rat" where
  "scoreCompleteness text =
     (if text = [] then 15 / 10
      else
        (let count = foldl (\<lambda>acc term. acc + (if includesStr (toLowerCase text) term then 1 else 0)) (0::nat)
                       completenessSignals;
             s0 = 2 + of_nat count * (11 / 10);
             s1 = (if length text > 800 then s0 + 1 else s0);
             s2 = (if length text < 100 then s1 - 15 / 10 else s1)
         in clamp s2 0 10))"

definition scoreRisk :: "string \<Rightarrow> rat" where
  "scoreRisk text =
     (let s0 = 4;
          s1 = (if testWords True [''risk'', ''blocker'', ''mitigation'', ''fallback'', ''failure''] text
                then s0 + 3 else s0);
          s2 = (if testWords True [''high-risk'', ''critical'', ''safety''] text then s1 + 1 else s1);
          s3 = (if testWords True [''ignore risk'', ''skip validation''] text then s2 - 3 else s2)
      in clamp s3 0 10)"

definition scoreTestability :: "string \<Rightarrow> rat" where
  "scoreTestability text =
     (let s0 = 3;
          s1 = (if testWords True [''test'', ''verify'', ''assert'', ''evidence'', ''checkpoint'', ''acceptance''] text
                then s0 + 4 else s0);
          s2 = (if testWords True [''manual'', ''review'', ''logic-check''] text then s1 + 15 / 10 else s1);
          s3 = (if \<not> testWords True [''test'', ''verify'', ''check''] text then s2 - 2 else s2)
      in clamp s3 0 10)"

definition scoreSimplicity :: "string \<Rightarrow> rat" where
  "scoreSimplicity text =
     (let wordCount = length (filter (\<lambda>w. w \<noteq> []) (splitWhitespace text));
          sentenceCount0 = length (filter (\<lambda>s. length (trim s) > 0)
                                     (splitChars (\<lambda>c. c \<in> set ''.!?'') text));
          sentenceCount = (if sentenceCount0 = 0 then 1 else sentenceCount0);
          avgSentenceWords = (of_nat wordCount :: rat) / of_nat sentenceCount;
          s0 = 8;
          s1 = (if avgSentenceWords > 28 then s0 - 3 else if avgSentenceWords > 20 then s0 - 15 / 10 else s0);
          s2 = (if wordCount > 900 then s1 - 2 else s1);
          s3 = (if testWords True [''simple'', ''minimal'', ''focused''] text then s2 + 1 else s2)
      in clamp s3 0 10)"

definition scoreMaintainability :: "string \<Rightarrow> rat" where
  "scoreMaintainability text =
     (let s0 = 4;
          s1 = (if testWords True [''modular'', ''schema'', ''stable'', ''typed'', ''repository'', ''migration''] text
                then s0 + 3 else s0);
          s2 = (if testWords True [''document'', ''readme'', ''test''] text then s1 + 2 else s1);
          s3 = (if testWords True [''hack'', ''temporary'', ''quick fix''] text then s2 - 2 else s2)
      in clamp s3 0 10)"

definition sourceTextOf :: "CriticInput \<Rightarrow> string" where
  "sourceTextOf input =
     sanitizeText
       (case subjectText (subject input) of
          Some t \<Rightarrow> t
        | None \<Rightarrow> (case structuredJson (subject input) of None \<Rightarrow> ''{}'' | Some j \<Rightarrow> j))
       (if mode (criticPolicy input) = Small then 1500 else 3500)"

definition scoresOf :: "string \<Rightarrow> CategoryScores" where
  "scoresOf sourceText =
     \<lparr> correctness = roundOne (scoreCorrectness sourceText),
       completeness = roundOne (scoreCompleteness sourceText),
       risk = roundOne (scoreRisk sourceText),
       testability = roundOne (scoreTestability sourceText),
       simplicity = roundOne (scoreSimplicity sourceText),
       maintainability = roundOne (scoreMaintainability sourceText) \<rparr>"

definition weightedTotalOf :: "CategoryScores \<Rightarrow> CategoryScores \<Rightarrow> rat" where
  "weightedTotalOf sc weights =
     roundOne
       ((correctness sc * correctness weights + completeness sc * completeness weights +
         risk sc * risk weights + testability sc * testability weights +
         simplicity sc * simplicity weights + maintainability sc * maintainability weights)
        / sumWeights weights)"

definition runCriticReview :: "CriticInput \<Rightarrow> CriticOutput" where
  "runCriticReview input =
     (let policy = criticPolicy input;
          sourceText = sourceTextOf input;
          st = (case style input of None \<Rightarrow> BalancedStyle | Some s \<Rightarrow> s);
          sc = scoresOf sourceText;
          weights = resolveWeights (rubric input);
          wTotal = weightedTotalOf sc weights;
          fs = capItems (buildFindings sc st policy) (max 4 (maxFindings policy));
          strong = capItems
                     (map (\<lambda>c. sanitizeText (capitalize (categoryName c) @ '' quality is strong.'') (textMaxChars policy))
                        (filter (\<lambda>c. scoreOf sc c \<ge> 8) categoryLabels))
                     (maxGenericItems policy);
          weak = capItems
                   (map (\<lambda>c. sanitizeText (capitalize (categoryName c) @ '' quality needs improvement.'') (textMaxChars policy))
                      (filter (\<lambda>c. scoreOf sc c \<le> 6) categoryLabels))
                   (maxGenericItems policy)
      in \<lparr> scores = sc, weightedTotal = wTotal, findings = fs, strengths = strong, weaknesses = weak,
           verdict = resolveVerdict sc wTotal fs \<rparr>)"

section \<open>Consistency Checker\<close>

datatype ConsistencyIssueType = Contradiction | MissingStep | CircularDependency | UnsupportedClaim | GoalDrift
datatype CheckTarget = Contradictions | MissingSteps | CircularDeps | UnsupportedClaims | GoalDriftTarget

record DraftStep =
  draftStepId :: "string option"
  draftStepText :: string
  draftStepDependsOn :: "string list option"

record Draft =
  draftClaims :: "string list option"
  draftPlanText :: "string option"
  draftSteps :: "DraftStep list option"
  draftConclusions :: "string list option"

record ConsistencyCheckInput =
  draft :: "Draft option"
  checkTargets :: "CheckTarget list option"
  checkGoal :: "string option"
  sessionPlanSteps :: "PlanStepRecord list option"
  sessionAssumptions :: "AssumptionRecord list option"
  recentDecisionLogs :: "DecisionLogRecord list option"
  checkPolicy :: ResponsePolicy

record ConsistencyIssue =
  issueId :: string
  issueType :: ConsistencyIssueType
  issueSeverity :: RiskLevel
  issueDescription :: string
  affectedItems :: "string list"
  suggestedFix :: string

record CheckSummary =
  summaryTotal :: nat
  summaryHighSeverity :: nat
  summaryPass :: bool

record ConsistencyCheckOutput =
  issues :: "ConsistencyIssue list"
  summary :: CheckSummary

record CheckStep =
  checkStepId :: string
  checkStepText :: string
  checkStepDependsOn :: "string list"

definition makeIssue ::
  "string \<Rightarrow> ConsistencyIssueType \<Rightarrow> RiskLevel \<Rightarrow> string \<Rightarrow> string list \<Rightarrow> string \<Rightarrow> ResponsePolicy
   \<Rightarrow> ConsistencyIssue" where
  "makeIssue uuid type sev description affected fix policy =
     \<lparr> issueId = newId ''issue'' uuid,
       issueType = type,
       issueSeverity = sev,
       issueDescription = sanitizeText description (textMaxChars policy),
       affectedItems = capItems (map (\<lambda>item. sanitizeText item (textMaxChars policy)) affected)
                         (maxGenericItems policy),
       suggestedFix = sanitizeText fix (textMaxChars policy) \<rparr>"

definition stopwords :: "string list" where
  "stopwords = [''the'', ''a'', ''an'', ''and'', ''or'', ''to'', ''for'', ''of'', ''in'', ''on'', ''with'',
     ''is'', ''are'', ''be'', ''by'', ''this'', ''that'']"

text \<open>\<open>text.toLowerCase().replace(/[^\w\s]/g, " ").split(/\s+/)\<close>.\<close>

definition tokens :: "string \<Rightarrow> string list" where
  "tokens text =
     splitWhitespace (map (\<lambda>c. if isWordChar c \<or> isSpace c then c else CHR '' '') (toLowerCase text))"

definition keywordSet :: "string \<Rightarrow> string list" where
  "keywordSet text =
     uniqueInOrder [] (filter (\<lambda>token. length token \<ge> 4 \<and> token \<notin> set stopwords) (tokens text))"

definition extractClaimAnchor :: "string \<Rightarrow> string" where
  "extractClaimAnchor claim =
     (case filter (\<lambda>token. length token \<ge> 5) (tokens claim) of [] \<Rightarrow> [] | anchor # _ \<Rightarrow> anchor)"

definition negationWords :: "string list" where
  "negationWords = [''no'', ''not'', ''never'', ''cannot'', ''can'' @ [CHR 0x27] @ ''t'', ''without'', ''failed'']"

definition isContradictoryPair :: "string \<Rightarrow> string \<Rightarrow> bool" where
  "isContradictoryPair a b =
     (let aHasNegation = testWords True negationWords a;
          bHasNegation = testWords True negationWords b
      in if aHasNegation = bHasNegation then False
         else (let aKeywords = keywordSet a;
                   bKeywords = keywordSet b;
                   overlap = length (filter (\<lambda>keyword. keyword \<in> set bKeywords) aKeywords)
               in overlap \<ge> 2))"

text \<open>Each detector creates its issues in order; the issue created when \<open>k\<close> issues
  exist already in the current invocation gets the identifier \<open>uuids k\<close>. \<open>base\<close> is the
  number of issues created by the detectors that ran before.\<close>

fun contradictionLoop ::
  "(nat \<Rightarrow> string) \<Rightarrow> nat \<Rightarrow> ResponsePolicy \<Rightarrow> ConsistencyIssue list \<Rightarrow> (string \<times> string) list
   \<Rightarrow> ConsistencyIssue list" where
  "contradictionLoop uuids base policy found [] = found"
| "contradictionLoop uuids base policy found ((a, b) # rest) =
     (if isContradictoryPair a b
      then contradictionLoop uuids base policy
             (found @ [makeIssue (uuids (base + length found)) Contradiction High
                         ''Potential contradiction detected between claim and conclusion.''
                         [a, b]
                         ''Align conclusion with supporting claim or add missing evidence.''
                         policy])
             rest
      else contradictionLoop uuids base policy found rest)"

definition detectContradictions ::
  "(nat \<Rightarrow> string) \<Rightarrow> nat \<Rightarrow> string list \<Rightarrow> string list \<Rightarrow> ResponsePolicy \<Rightarrow> ConsistencyIssue list" where
  "detectContradictions uuids base claims conclusions policy =
     contradictionLoop uuids base policy []
       (concat (map (\<lambda>claim. map (\<lambda>conclusion. (claim, conclusion)) conclusions) claims))"

definition stepIndexById :: "CheckStep list \<Rightarrow> (string \<rightharpoonup> nat)" where
  "stepIndexById stepList = map_of (rev (zip (map checkStepId stepList) [0..<length stepList]))"

fun missingDepLoop ::
  "(nat \<Rightarrow> string) \<Rightarrow> nat \<Rightarrow> ResponsePolicy \<Rightarrow> (string \<rightharpoonup> nat) \<Rightarrow> ConsistencyIssue list
   \<Rightarrow> (nat \<times> CheckStep \<times> string) list \<Rightarrow> ConsistencyIssue list" where
  "missingDepLoop uuids base policy indexes found [] = found"
| "missingDepLoop uuids base policy indexes found ((index, step, depId) # rest) =
     (case indexes depId of
        None \<Rightarrow>
          missingDepLoop uuids base policy indexes
            (found @ [makeIssue (uuids (base + length found)) MissingStep High
                        (''Step '' @ [CHR 0x27] @ checkStepId step @ [CHR 0x27] @ '' depends on undefined step ''
                           @ [CHR 0x27] @ depId @ [CHR 0x27] @ ''.'')
                        [checkStepId step, depId]
                        ''Define the missing dependency or remove invalid reference.''
                        policy])
            rest
      | Some depIndex \<Rightarrow>
          if depIndex > index then
            missingDepLoop uuids base policy indexes
              (found @ [makeIssue (uuids (base + length found)) MissingStep Medium
                          (''Step '' @ [CHR 0x27] @ checkStepId step @ [CHR 0x27] @ '' depends on future step ''
                             @ [CHR 0x27] @ depId @ [CHR 0x27] @ ''.'')
                          [checkStepId step, depId]
                          ''Reorder steps so dependencies complete earlier.''
                          policy])
              rest
          else missingDepLoop uuids base policy indexes found rest)"

text \<open>\<open>/\bdeploy|release|production\b/.test(s)\<close>: the alternatives are \<open>\bdeploy\<close>,
  \<open>release\<close> and \<open>production\b\<close>.\<close>

definition deploymentAt :: "bool \<Rightarrow> bool \<Rightarrow> string \<Rightarrow> bool" where
  "deploymentAt ignoreCase prevIsWord s =
     (if boundaryBetween prevIsWord s \<and> literalPrefix ignoreCase ''deploy'' prevIsWord s \<noteq> None then True
      else if literalPrefix ignoreCase ''release'' prevIsWord s \<noteq> None then True
      else (case literalPrefix ignoreCase ''production'' prevIsWord s of
              None \<Rightarrow> False
            | Some (lastIsWord, rest) \<Rightarrow> boundaryBetween lastIsWord rest))"

fun deploymentFrom :: "bool \<Rightarrow> bool \<Rightarrow> string \<Rightarrow> bool" where
  "deploymentFrom ignoreCase prevIsWord [] = deploymentAt ignoreCase prevIsWord []"
| "deploymentFrom ignoreCase prevIsWord (c # cs) =
     (if deploymentAt ignoreCase prevIsWord (c # cs) then True
      else deploymentFrom ignoreCase (isWordChar c) cs)"

definition testDeployment :: "bool \<Rightarrow> string \<Rightarrow> bool" where
  "testDeployment ignoreCase s = deploymentFrom ignoreCase False s"

definition detectMissingSteps ::
  "(nat \<Rightarrow> string) \<Rightarrow> nat \<Rightarrow> CheckStep list \<Rightarrow> string \<Rightarrow> string list \<Rightarrow> ResponsePolicy
   \<Rightarrow> ConsistencyIssue list" where
  "detectMissingSteps uuids base stepList planText conclusions policy =
     (if length conclusions > 0 \<and> length stepList = 0 then
        [makeIssue (uuids base) MissingStep High
           ''Conclusions provided without supporting execution steps.''
           conclusions
           ''Add explicit steps that produce evidence for each conclusion.''
           policy]
      else
        (let found = missingDepLoop uuids base policy (stepIndexById stepList) []
                       (concat (map (\<lambda>(index, step). map (\<lambda>depId. (index, step, depId)) (checkStepDependsOn step))
                                  (zip [0..<length stepList] stepList)));
             lowerSteps = joinWith '' '' (map (\<lambda>step. toLowerCase (checkStepText step)) stepList)
         in if testDeployment True planText \<and> \<not> testDeployment False lowerSteps then
              found @ [makeIssue (uuids (base + length found)) MissingStep Medium
                         ''Plan text references deployment but no deployment step was found.''
                         [planText]
                         ''Add a deployment or rollout step with verification.''
                         policy]
            else found))"

subsection \<open>Circular dependencies\<close>

text \<open>The closure \<open>dfs\<close> shares the sets \<open>visited\<close> and \<open>stack\<close> and the issue list; the
  model passes them as a state and bounds the recursion depth by a counter, \<open>None\<close>
  meaning that the counter ran out. \<open>edges.set\<close> keeps the last value given for an id.\<close>

record CycleState =
  cycleVisited :: "string set"
  cycleStack :: "string set"
  cycleIssues :: "ConsistencyIssue list"

definition edgeMap :: "CheckStep list \<Rightarrow> (string \<rightharpoonup> string list)" where
  "edgeMap stepList = map_of (rev (map (\<lambda>step. (checkStepId step, checkStepDependsOn step)) stepList))"

fun dfs ::
  "nat \<Rightarrow> (nat \<Rightarrow> string) \<Rightarrow> nat \<Rightarrow> ResponsePolicy \<Rightarrow> (string \<rightharpoonup> string list) \<Rightarrow> string \<Rightarrow> CycleState
   \<Rightarrow> CycleState option"
and dfsDeps ::
  "nat \<Rightarrow> (nat \<Rightarrow> string) \<Rightarrow> nat \<Rightarrow> ResponsePolicy \<Rightarrow> (string \<rightharpoonup> string list) \<Rightarrow> string list \<Rightarrow> CycleState
   \<Rightarrow> CycleState option"
where
  "dfs 0 uuids base policy edges node st = None"
| "dfs (Suc depth) uuids base policy edges node st =
     (if node \<in> cycleStack st then
        Some (st\<lparr>cycleIssues := cycleIssues st @
                 [makeIssue (uuids (base + length (cycleIssues st))) CircularDependency High
                    (''Circular dependency detected at '' @ [CHR 0x27] @ node @ [CHR 0x27] @ ''.'')
                    [node]
                    ''Remove cycle by introducing linear dependency progression.''
                    policy]\<rparr>)
      else if node \<in> cycleVisited st then Some st
      else
        (let st1 = st\<lparr>cycleVisited := insert node (cycleVisited st),
                        cycleStack := insert node (cycleStack st)\<rparr>;
             deps = (case edges node of None \<Rightarrow> [] | Some ds \<Rightarrow> ds)
         in case dfsDeps depth uuids base policy edges deps st1 of
              None \<Rightarrow> None
            | Some st2 \<Rightarrow> Some (st2\<lparr>cycleStack := cycleStack st2 - {node}\<rparr>)))"
| "dfsDeps depth uuids base policy edges [] st = Some st"
| "dfsDeps depth uuids base policy edges (dep # rest) st =
     (if edges dep \<noteq> None then
        (case dfs depth uuids base policy edges dep st of
           None \<Rightarrow> None
         | Some st' \<Rightarrow> dfsDeps depth uuids base policy edges rest st')
      else dfsDeps depth uuids base policy edges rest st)"

fun dfsAll ::
  "nat \<Rightarrow> (nat \<Rightarrow> string) \<Rightarrow> nat \<Rightarrow> ResponsePolicy \<Rightarrow> (string \<rightharpoonup> string list) \<Rightarrow> CheckStep list \<Rightarrow> CycleState
   \<Rightarrow> CycleState option" where
  "dfsAll depth uuids base policy edges [] st = Some st"
| "dfsAll depth uuids base policy edges (step # rest) st =
     (case dfs depth uuids base policy edges (checkStepId step) st of
        None \<Rightarrow> None
      | Some st' \<Rightarrow> dfsAll depth uuids base policy edges rest st')"

definition detectCircularDependencies ::
  "(nat \<Rightarrow> string) \<Rightarrow> nat \<Rightarrow> CheckStep list \<Rightarrow> ResponsePolicy \<Rightarrow> ConsistencyIssue list option" where
  "detectCircularDependencies uuids base stepList policy =
     map_option cycleIssues
       (dfsAll (Suc (length stepList)) uuids base policy (edgeMap stepList) stepList
          \<lparr> cycleVisited = {}, cycleStack = {}, cycleIssues = [] \<rparr>)"

subsection \<open>Unsupported claims and goal drift\<close>

fun evidentialLoop ::
  "(nat \<Rightarrow> string) \<Rightarrow> nat \<Rightarrow> ResponsePolicy \<Rightarrow> DecisionLogRecord list \<Rightarrow> ConsistencyIssue list \<Rightarrow> string list
   \<Rightarrow> ConsistencyIssue list" where
  "evidentialLoop uuids base policy logs found [] = found"
| "evidentialLoop uuids base policy logs found (claim # rest) =
     (if testWords True [''because'', ''therefore'', ''proves'', ''confirmed''] claim then
        (let hasEvidence =
               list_ex (\<lambda>log.
                  includesStr
                    (toLowerCase
                       (joinWith '' ''
                          (dlSummary log #
                           (case dlDetails log of
                              None \<Rightarrow> []
                            | Some d \<Rightarrow> (case evidence d of None \<Rightarrow> [] | Some ev \<Rightarrow> ev)))))
                    (extractClaimAnchor claim))
                 logs
         in if \<not> hasEvidence then
              evidentialLoop uuids base policy logs
                (found @ [makeIssue (uuids (base + length found)) UnsupportedClaim Medium
                            ''Claim appears evidential but no supporting evidence log was found.''
                            [claim]
                            ''Record evidence in decision logs or weaken claim confidence.''
                            policy])
                rest
            else evidentialLoop uuids base policy logs found rest)
      else evidentialLoop uuids base policy logs found rest)"

definition detectUnsupportedClaims ::
  "(nat \<Rightarrow> string) \<Rightarrow> nat \<Rightarrow> string list \<Rightarrow> string list \<Rightarrow> AssumptionRecord list option
   \<Rightarrow> DecisionLogRecord list option \<Rightarrow> ResponsePolicy \<Rightarrow> ConsistencyIssue list" where
  "detectUnsupportedClaims uuids base claims conclusions assumptions decisionLogs policy =
     (let i1 = (if length claims = 0 \<and> length conclusions > 0
                then [makeIssue (uuids base) UnsupportedClaim High
                        ''Conclusions exist without explicit supporting claims.''
                        conclusions
                        ''Add supporting claims or evidence before finalizing conclusions.''
                        policy]
                else []);
          verifiedAssumptions = (case assumptions of None \<Rightarrow> []
                                 | Some items \<Rightarrow> filter (\<lambda>item. asStatus item = Verified) items);
          evidenceLogs = (case decisionLogs of None \<Rightarrow> []
                          | Some logs \<Rightarrow> filter (\<lambda>log. dlKind log = Result \<or> dlKind log = CheckpointKind) logs);
          i2 = (if length conclusions > 0 \<and> length verifiedAssumptions = 0 \<and> length evidenceLogs = 0
                then i1 @ [makeIssue (uuids (base + length i1)) UnsupportedClaim High
                             ''Conclusions are not backed by verified assumptions or evidence logs.''
                             (take 3 conclusions)
                             ''Verify assumptions and log concrete evidence before final conclusions.''
                             policy]
                else i1)
      in evidentialLoop uuids base policy (case decisionLogs of None \<Rightarrow> [] | Some logs \<Rightarrow> logs) i2 claims)"

definition detectGoalDrift ::
  "(nat \<Rightarrow> string) \<Rightarrow> nat \<Rightarrow> string option \<Rightarrow> string list \<Rightarrow> string list \<Rightarrow> string list \<Rightarrow> string
   \<Rightarrow> ResponsePolicy \<Rightarrow> ConsistencyIssue list" where
  "detectGoalDrift uuids base goalOpt claims conclusions stepTexts planText policy =
     (case goalOpt of
        None \<Rightarrow> []
      | Some goal \<Rightarrow>
          if goal = [] then []
          else
            (let goalKeywords = keywordSet goal in
             if length goalKeywords = 0 then []
             else
               (let corpus = joinWith '' '' (claims @ conclusions @ stepTexts @ [planText]);
                    corpusKeywords = keywordSet corpus;
                    overlap = length (filter (\<lambda>keyword. keyword \<in> set corpusKeywords) goalKeywords);
                    ratio = (of_nat overlap :: rat) / of_nat (length goalKeywords)
                in if ratio \<ge> 3 / 10 then []
                   else [makeIssue (uuids base) GoalDrift (if ratio < 15 / 100 then High else Medium)
                           ''Current draft appears to drift from normalized goal keywords.''
                           [goal]
                           ''Revise plan and conclusions to align with stated goal.''
                           policy])))"

subsection \<open>The check\<close>

definition checkSteps :: "ConsistencyCheckInput \<Rightarrow> CheckStep list" where
  "checkSteps input =
     (case (case draft input of None \<Rightarrow> None | Some d \<Rightarrow> draftSteps d) of
        Some ds \<Rightarrow>
          map (\<lambda>(step, index).
                 \<lparr> checkStepId = (case draftStepId step of None \<Rightarrow> ''draft_step_'' @ showNat (index + 1)
                                    | Some i \<Rightarrow> i),
                   checkStepText = draftStepText step,
                   checkStepDependsOn = (case draftStepDependsOn step of None \<Rightarrow> [] | Some deps \<Rightarrow> deps) \<rparr>)
            (zip ds [0..<length ds])
      | None \<Rightarrow>
          (case sessionPlanSteps input of
             Some ps \<Rightarrow> map (\<lambda>step. \<lparr> checkStepId = psStepId step, checkStepText = psTitle step,
                                       checkStepDependsOn = psDependsOn step \<rparr>) ps
           | None \<Rightarrow> []))"

text \<open>\<open>if (targets.has("circular-deps")) issues.push(...detectCircularDependencies(...))\<close>.\<close>

definition pushCircular ::
  "CheckTarget list \<Rightarrow> (nat \<Rightarrow> string) \<Rightarrow> CheckStep list \<Rightarrow> ResponsePolicy \<Rightarrow> ConsistencyIssue list
   \<Rightarrow> ConsistencyIssue list option" where
  "pushCircular targets uuids stepList policy found =
     (if CircularDeps \<in> set targets
      then map_option (\<lambda>more. found @ more) (detectCircularDependencies uuids (length found) stepList policy)
      else Some found)"

text \<open>The array \<open>issues\<close> before it is capped.\<close>

definition collectIssues :: "(nat \<Rightarrow> string) \<Rightarrow> ConsistencyCheckInput \<Rightarrow> ConsistencyIssue list option" where
  "collectIssues uuids input =
     (let targets = (case checkTargets input of
                       None \<Rightarrow> [Contradictions, MissingSteps, CircularDeps, UnsupportedClaims, GoalDriftTarget]
                     | Some ts \<Rightarrow> ts);
          policy = checkPolicy input;
          claims = (case draft input of None \<Rightarrow> [] | Some d \<Rightarrow> (case draftClaims d of None \<Rightarrow> [] | Some v \<Rightarrow> v));
          conclusions = (case draft input of None \<Rightarrow> []
                         | Some d \<Rightarrow> (case draftConclusions d of None \<Rightarrow> [] | Some v \<Rightarrow> v));
          planText = (case draft input of None \<Rightarrow> [] | Some d \<Rightarrow> (case draftPlanText d of None \<Rightarrow> [] | Some v \<Rightarrow> v));
          stepList = checkSteps input;
          i1 = (if Contradictions \<in> set targets
                then detectContradictions uuids 0 claims conclusions policy else []);
          i2 = (if MissingSteps \<in> set targets
                then i1 @ detectMissingSteps uuids (length i1) stepList planText conclusions policy else i1)
      in case pushCircular targets uuids stepList policy i2 of
           None \<Rightarrow> None
         | Some i3 \<Rightarrow>
             (let i4 = (if UnsupportedClaims \<in> set targets
                        then i3 @ detectUnsupportedClaims uuids (length i3) claims conclusions
                                    (sessionAssumptions input) (recentDecisionLogs input) policy
                        else i3);
                  i5 = (if GoalDriftTarget \<in> set targets
                        then i4 @ detectGoalDrift uuids (length i4) (checkGoal input) claims conclusions
                                    (map checkStepText stepList) planText policy
                        else i4)
              in Some i5))"

definition runConsistencyCheck :: "(nat \<Rightarrow> string) \<Rightarrow> ConsistencyCheckInput \<Rightarrow> ConsistencyCheckOutput option" where
  "runConsistencyCheck uuids input =
     (case collectIssues uuids input of
        None \<Rightarrow> None
      | Some found \<Rightarrow>
          (let capped = capItems found (maxFindings (checkPolicy input))
           in Some \<lparr> issues = capped,
                     summary = \<lparr> summaryTotal = length capped,
                                 summaryHighSeverity = length (filter (\<lambda>issue. issueSeverity issue = High) capped),
                                 summaryPass = (length capped = 0) \<rparr> \<rparr>))"

section \<open>Next-Action Selector\<close>

datatype ActionType = ExecuteStep | VerifyAssumption | RunReview | ResolveBlocker | RevisePlan | GatherEvidence
datatype Preference = Progress | Safety | Validation | Unblock

record CurrentContext =
  latestResult :: "string option"
  activeStepId :: "string option"
  blockers :: "string list option"
  openRisks :: "string list option"


record Recommendation =
  recType :: ActionType
  recTitle :: string
  recReason :: string
  recTargetStepId :: "string option"

record Alternative =
  altType :: ActionType
  altTitle :: string
  altTradeoff :: string

record NextActionOutput =
  nextRecommendation :: Recommendation
  alternatives :: "Alternative list"
  prerequisites :: "string list"













subsection \<open>Invariants of the ordering and positions in it\<close>

definition visitInv :: "(string \<rightharpoonup> NormalizedSubtask) \<Rightarrow> VisitState \<Rightarrow> bool" where
  "visitInv byId st \<longleftrightarrow>
     set (map subtaskId (orderedSoFar st)) = visited st \<and>
     distinct (map subtaskId (orderedSoFar st)) \<and>
     (\<forall>x \<in> set (orderedSoFar st). byId (subtaskId x) = Some x) \<and>
     visited st \<inter> visiting st = {}"

definition visitStep :: "(string \<rightharpoonup> NormalizedSubtask) \<Rightarrow> VisitState \<Rightarrow> VisitState \<Rightarrow> bool" where
  "visitStep byId st st' \<longleftrightarrow>
     visiting st' = visiting st \<and> visited st \<subseteq> visited st' \<and>
     (visitInv byId st \<longrightarrow> visitInv byId st')"

definition keyed :: "(string \<rightharpoonup> NormalizedSubtask) \<Rightarrow> bool" where
  "keyed byId \<longleftrightarrow> (\<forall>k v. byId k = Some v \<longrightarrow> subtaskId v = k)"

definition pendingCount :: "(string \<rightharpoonup> NormalizedSubtask) \<Rightarrow> VisitState \<Rightarrow> nat" where
  "pendingCount byId st = card (dom byId - (visited st \<union> visiting st))"

definition positionOf :: "NormalizedSubtask list \<Rightarrow> string \<Rightarrow> nat" where
  "positionOf ordered d = length (takeWhile (\<lambda>subtask. subtaskId subtask \<noteq> d) ordered)"

subsection \<open>Concrete plan inputs\<close>

definition cyclicPlanInput :: BuildPlanInput where
  "cyclicPlanInput =
     \<lparr> planGoal = ''Ship the release'',
       planSubtasks = Some
         [\<lparr> inputId = ''a'', inputTitle = ''Draft'', inputDependsOn = Some [''b''] \<rparr>,
          \<lparr> inputId = ''b'', inputTitle = ''Review'', inputDependsOn = Some [''a''] \<rparr>,
          \<lparr> inputId = ''c'', inputTitle = ''Publish'', inputDependsOn = Some [''a'', ''zzz''] \<rparr>],
       planConstraints = None, planStrategy = None, includeCheckpoints = None,
       planPolicy = POLICY_BY_MODE Small \<rparr>"

definition mixedPlanInput :: BuildPlanInput where
  "mixedPlanInput =
     \<lparr> planGoal = ''Ship the release'',
       planSubtasks = Some
         [\<lparr> inputId = ''a'', inputTitle = ''Draft'', inputDependsOn = None \<rparr>,
          \<lparr> inputId = ''b'', inputTitle = ''Review'', inputDependsOn = None \<rparr>,
          \<lparr> inputId = ''c'', inputTitle = ''Publish'', inputDependsOn = Some [''a'', ''zzz''] \<rparr>],
       planConstraints = None, planStrategy = None, includeCheckpoints = None,
       planPolicy = POLICY_BY_MODE Small \<rparr>"

definition cyclicSubtasks :: "NormalizedSubtask list" where
  "cyclicSubtasks =
     [\<lparr> subtaskId = ''a'', subtaskTitle = ''Draft'', subtaskDependsOn = [''b''] \<rparr>,
      \<lparr> subtaskId = ''b'', subtaskTitle = ''Review'', subtaskDependsOn = [''c'', ''zzz''] \<rparr>,
      \<lparr> subtaskId = ''c'', subtaskTitle = ''Publish'', subtaskDependsOn = [''a''] \<rparr>]"

definition duplicateIdSubtasks :: "NormalizedSubtask list" where
  "duplicateIdSubtasks =
     [\<lparr> subtaskId = ''a'', subtaskTitle = ''Draft'', subtaskDependsOn = [] \<rparr>,
      \<lparr> subtaskId = ''a'', subtaskTitle = ''Review'', subtaskDependsOn = [] \<rparr>]"

subsection \<open>Concrete decomposition and analysis inputs\<close>

definition milestoneInput :: DecomposeTaskInput where
  "milestoneInput =
     \<lparr> decomposeTaskText = ''Prepare the quarterly summary'', decomposeGoal = None,
       decomposeConstraints = None, decomposeMode = Some Milestone,
       decomposePolicy = POLICY_BY_MODE Small \<rparr>"

definition debugScenarioInput :: AnalyzeTaskInput where
  "debugScenarioInput =
     \<lparr> analyzeTaskText =
         ''Debug failing auth endpoint. Must use only SQLite. Cannot use external APIs. Why is it failing?'',
       analyzeConstraints = None,
       analyzeContext = None,
       analyzePolicy = getResponsePolicy
         (Some \<lparr> profileName = None, maxContextTokens = None, profileMode = Some Small \<rparr>) \<rparr>"

subsection \<open>Measure of the compaction loop\<close>

definition textTotal :: "SectionState list \<Rightarrow> nat" where
  "textTotal ws = sum_list (map (\<lambda>s. length (sectionText s)) ws)"

text \<open>The state in which the \<open>while\<close> loop of \<open>compactReasoningState\<close> is left on the given
  input: the loop is entered with all sections, nothing dropped or compressed, and the
  target \<open>targetTokens * 4\<close>.\<close>

definition compactRun :: "CompactStateInput \<Rightarrow> CompactLoopState option" where
  "compactRun input =
     compactLoop
       (uniqueInOrder [] (map sectionKey (case compactPreserve input of None \<Rightarrow> [] | Some ps \<Rightarrow> ps)))
       \<lparr> working = buildSections input, droppedOrCompressed = [],
         compactedText = sectionsToText (buildSections input),
         targetChars = resolveTargetTokens (compactTargetTokens input) (compactPolicy input) * 4 \<rparr>"

text \<open>An empty session compacted to 50 tokens with every section preserved.\<close>

definition preservedSessionInput :: CompactStateInput where
  "preservedSessionInput =
     \<lparr> compactTargetTokens = Some 50,
       compactPreserve = Some [GoalSection, ConstraintsSection, OpenRisksSection, AssumptionsSection,
         CurrentPlanSection, RecentResultsSection, DecisionsSection],
       compactGoal = None, compactConstraints = None, compactPlanSteps = [], compactAssumptions = [],
       compactDecisionLogs = [], compactPolicy = POLICY_BY_MODE Small \<rparr>"

subsection \<open>Concrete critic inputs\<close>

definition strongSubjectInput :: CriticInput where
  "strongSubjectInput =
     \<lparr> subject = \<lparr> subjectType = PlanSubject,
         subjectText = Some ''Verified goal, constraint, assumption. A critical risk. We verify each plan step by test and review. Next action: modular readme.'',
         structuredJson = None \<rparr>,
       rubric = None, style = None, criticPolicy = POLICY_BY_MODE Small \<rparr>"

definition lowCorrectnessScores :: CategoryScores where
  "lowCorrectnessScores = \<lparr> correctness = 4, completeness = 9, risk = 9, testability = 9,
     simplicity = 9, maintainability = 9 \<rparr>"

subsection \<open>Measure of the cycle search\<close>

definition cyclePending :: "(string \<rightharpoonup> string list) \<Rightarrow> CycleState \<Rightarrow> nat" where
  "cyclePending edges st = card (dom edges - cycleVisited st)"

subsection \<open>Policy bounds of the outputs\<close>











subsection \<open>Concrete inputs for the policy bounds\<close>



definition cyclicDraftInput :: ConsistencyCheckInput where
  "cyclicDraftInput =
     \<lparr> draft = Some
         \<lparr> draftClaims = Some [''The cache is stale''],
           draftPlanText = None,
           draftSteps = Some
             [\<lparr> draftStepId = Some ''a'', draftStepText = ''Flush the cache'', draftStepDependsOn = Some [''b''] \<rparr>,
              \<lparr> draftStepId = Some ''b'', draftStepText = ''Warm the cache'', draftStepDependsOn = Some [''a''] \<rparr>],
           draftConclusions = Some [''The cache is fresh''] \<rparr>,
       checkTargets = None, checkGoal = None, sessionPlanSteps = None, sessionAssumptions = None,
       recentDecisionLogs = None, checkPolicy = POLICY_BY_MODE Small \<rparr>"


subsection \<open>Outputs without their generated identifiers\<close>

text \<open>The two entry points that call \<open>newId\<close> are \<open>analyzeTask\<close> (one identifier per risk) and
  \<open>runConsistencyCheck\<close> (one per issue). The functions below blank these identifier
  fields and leave everything else in place.\<close>

definition eraseRiskId :: "Risk \<Rightarrow> Risk" where
  "eraseRiskId r = r\<lparr>riskId := []\<rparr>"

definition eraseRiskIds :: "AnalyzeTaskOutput \<Rightarrow> AnalyzeTaskOutput" where
  "eraseRiskIds out = out\<lparr>risks := map eraseRiskId (risks out)\<rparr>"

definition eraseIssueId :: "ConsistencyIssue \<Rightarrow> ConsistencyIssue" where
  "eraseIssueId i = i\<lparr>issueId := []\<rparr>"

definition eraseIssueIds :: "ConsistencyCheckOutput \<Rightarrow> ConsistencyCheckOutput" where
  "eraseIssueIds out = out\<lparr>issues := map eraseIssueId (issues out)\<rparr>"

definition eraseCycleIds :: "CycleState \<Rightarrow> CycleState" where
  "eraseCycleIds st = st\<lparr>cycleIssues := map eraseIssueId (cycleIssues st)\<rparr>"

text \<open>An identifier supply that agrees with \<open>showNat\<close> on the first three calls only.\<close>

definition lateSupply :: "nat \<Rightarrow> string" where
  "lateSupply n = (if n < 3 then showNat n else ''later'')"

section \<open>Character classes on the bits of a code unit\<close>

text \<open>The classes defined above through the numeric value of a code unit, expressed
  on its eight bits (\<open>b0\<close> is the lowest); these equations are used to evaluate the
  definitions on concrete text.\<close>

lemma isWordChar_code [code]:
  "isWordChar (Char b0 b1 b2 b3 b4 b5 b6 b7) =
     (if b7 then False
      else if b6 then
        (if b4 \<and> b3 \<and> (b2 \<or> (b1 \<and> b0)) then (\<not> b5 \<and> b2 \<and> b1 \<and> b0)
         else (b0 \<or> b1 \<or> b2 \<or> b3 \<or> b4))
      else (b5 \<and> b4 \<and> (\<not> b3 \<or> (\<not> b2 \<and> \<not> b1))))"
  by (cases b0; cases b1; cases b2; cases b3; cases b4; cases b5; cases b6; cases b7;
      simp add: isWordChar_def)

lemma lowerChar_code [code]:
  "lowerChar (Char b0 b1 b2 b3 b4 b5 b6 b7) =
     (if b6 \<and> \<not> b5 \<and>
         (if b7 then \<not> (b4 \<and> b2 \<and> b1 \<and> b0)
          else (b0 \<or> b1 \<or> b2 \<or> b3 \<or> b4) \<and> \<not> (b4 \<and> b3 \<and> (b2 \<or> (b1 \<and> b0))))
      then Char b0 b1 b2 b3 b4 True b6 b7
      else Char b0 b1 b2 b3 b4 b5 b6 b7)"
  by (cases b0; cases b1; cases b2; cases b3; cases b4; cases b5; cases b6; cases b7;
      simp add: lowerChar_def plus32_def)

lemma asciiLower_code [code]:
  "asciiLower (Char b0 b1 b2 b3 b4 b5 b6 b7) =
     (if \<not> b7 \<and> b6 \<and> \<not> b5 \<and> (b0 \<or> b1 \<or> b2 \<or> b3 \<or> b4) \<and> \<not> (b4 \<and> b3 \<and> (b2 \<or> (b1 \<and> b0)))
      then Char b0 b1 b2 b3 b4 True b6 b7
      else Char b0 b1 b2 b3 b4 b5 b6 b7)"
  by (cases b0; cases b1; cases b2; cases b3; cases b4; cases b5; cases b6; cases b7;
      simp add: asciiLower_def plus32_def)

lemma upperAscii_code [code]:
  "upperAscii (Char b0 b1 b2 b3 b4 b5 b6 b7) =
     (if \<not> b7 \<and> b6 \<and> b5 \<and> (b0 \<or> b1 \<or> b2 \<or> b3 \<or> b4) \<and> \<not> (b4 \<and> b3 \<and> (b2 \<or> (b1 \<and> b0)))
      then Char b0 b1 b2 b3 b4 False b6 b7
      else Char b0 b1 b2 b3 b4 b5 b6 b7)"
  by (cases b0; cases b1; cases b2; cases b3; cases b4; cases b5; cases b6; cases b7;
      simp add: upperAscii_def)

section \<open>Properties of the Plan Builder\<close>

lemma visitStep_refl: "visitStep byId st st"
  by (simp add: visitStep_def)

lemma visitStep_trans: "visitStep byId a b \<Longrightarrow> visitStep byId b c \<Longrightarrow> visitStep byId a c"
  by (auto simp: visitStep_def)

lemma pendingCount_mono:
  assumes "finite (dom byId)" "visitStep byId st st'"
  shows "pendingCount byId st' \<le> pendingCount byId st"
  unfolding pendingCount_def using assms
  by (intro card_mono) (auto simp: visitStep_def)

lemma pendingCount_enter:
  assumes "finite (dom byId)" "byId i = Some node" "i \<notin> visited st" "i \<notin> visiting st"
  shows "pendingCount byId (st\<lparr>visiting := insert i (visiting st)\<rparr>) < pendingCount byId st"
proof -
  have "dom byId - (visited st \<union> insert i (visiting st)) \<subset> dom byId - (visited st \<union> visiting st)"
    using assms by auto
  then show ?thesis
    unfolding pendingCount_def using assms(1) by (simp add: psubset_card_mono)
qed

lemma visit_leave:
  assumes k: "keyed byId" and n: "byId i = Some node"
    and i1: "i \<notin> visited st" and i2: "i \<notin> visiting st"
    and s: "visitStep byId (st\<lparr>visiting := insert i (visiting st)\<rparr>) st2"
  shows "visitStep byId st
           (st2\<lparr>visiting := visiting st2 - {i}, visited := insert i (visited st2),
                 orderedSoFar := orderedSoFar st2 @ [node]\<rparr>)"
proof -
  let ?st1 = "st\<lparr>visiting := insert i (visiting st)\<rparr>"
  have v2: "visiting st2 = insert i (visiting st)" and sub: "visited st \<subseteq> visited st2"
    using s by (auto simp: visitStep_def)
  have id: "subtaskId node = i" using k n by (auto simp: keyed_def)
  have inv: "visitInv byId st2" if "visitInv byId st"
  proof -
    have "visitInv byId ?st1" using that i1 by (auto simp: visitInv_def)
    then show ?thesis using s by (simp add: visitStep_def)
  qed
  show ?thesis
    unfolding visitStep_def
  proof (intro conjI impI)
    show "visiting (st2\<lparr>visiting := visiting st2 - {i}, visited := insert i (visited st2),
                 orderedSoFar := orderedSoFar st2 @ [node]\<rparr>) = visiting st"
      using v2 i2 by auto
    show "visited st \<subseteq> visited (st2\<lparr>visiting := visiting st2 - {i}, visited := insert i (visited st2),
                 orderedSoFar := orderedSoFar st2 @ [node]\<rparr>)"
      using sub by auto
    assume "visitInv byId st"
    then have i2': "visitInv byId st2" by (rule inv)
    then have "i \<notin> visited st2" using v2 by (auto simp: visitInv_def)
    then show "visitInv byId (st2\<lparr>visiting := visiting st2 - {i}, visited := insert i (visited st2),
                 orderedSoFar := orderedSoFar st2 @ [node]\<rparr>)"
      using i2' id n by (auto simp: visitInv_def)
  qed
qed

lemma visit_total_aux:
  assumes f: "finite (dom byId)" and k: "keyed byId"
  shows "(\<forall>i st. pendingCount byId st < depth \<longrightarrow>
            (\<exists>st'. visit depth byId i st = Some st' \<and> visitStep byId st st' \<and>
                   (byId i \<noteq> None \<longrightarrow> i \<in> visiting st \<or> i \<in> visited st'))) \<and>
         (\<forall>ds st. pendingCount byId st < depth \<longrightarrow>
            (\<exists>st'. visitDeps depth byId ds st = Some st' \<and> visitStep byId st st'))"
proof (induction depth)
  case 0
  then show ?case by simp
next
  case (Suc n)
  have P: "\<exists>st'. visit (Suc n) byId i st = Some st' \<and> visitStep byId st st' \<and>
                   (byId i \<noteq> None \<longrightarrow> i \<in> visiting st \<or> i \<in> visited st')"
    if lt: "pendingCount byId st < Suc n" for i st
  proof (cases "i \<in> visited st \<or> i \<in> visiting st")
    case True
    then show ?thesis by (auto simp: visitStep_refl)
  next
    case False
    then have i1: "i \<notin> visited st" and i2: "i \<notin> visiting st" by auto
    show ?thesis
    proof (cases "byId i")
      case None
      have "visitStep byId st (st\<lparr>visiting := insert i (visiting st) - {i}\<rparr>)"
        using i2 by (auto simp: visitStep_def visitInv_def)
      then show ?thesis using None i1 i2 by simp
    next
      case (Some node)
      let ?st1 = "st\<lparr>visiting := insert i (visiting st)\<rparr>"
      have "pendingCount byId ?st1 < n"
        using pendingCount_enter[OF f Some i1 i2] lt by simp
      with Suc obtain st2 where d: "visitDeps n byId (subtaskDependsOn node) ?st1 = Some st2"
        and s: "visitStep byId ?st1 st2" by blast
      have "visitStep byId st (st2\<lparr>visiting := visiting st2 - {i}, visited := insert i (visited st2),
                 orderedSoFar := orderedSoFar st2 @ [node]\<rparr>)"
        by (rule visit_leave[OF k Some i1 i2 s])
      then show ?thesis using Some i1 i2 d by simp
    qed
  qed
  have Q: "\<exists>st'. visitDeps (Suc n) byId ds st = Some st' \<and> visitStep byId st st'"
    if lt: "pendingCount byId st < Suc n" for ds st
    using lt
  proof (induction ds arbitrary: st)
    case Nil
    then show ?case by (simp add: visitStep_refl)
  next
    case (Cons d ds)
    show ?case
    proof (cases "byId d = None")
      case True
      then show ?thesis using Cons by simp
    next
      case False
      from P[OF Cons.prems, of d] obtain st1 where
        v: "visit (Suc n) byId d st = Some st1" and s1: "visitStep byId st st1" by blast
      have "pendingCount byId st1 < Suc n"
        using pendingCount_mono[OF f s1] Cons.prems by simp
      from Cons.IH[OF this] obtain st2 where
        "visitDeps (Suc n) byId ds st1 = Some st2" "visitStep byId st1 st2" by blast
      then show ?thesis using False v s1 by (auto intro: visitStep_trans)
    qed
  qed
  show ?case using P Q by blast
qed

lemmas visit_total = visit_total_aux[THEN conjunct1, rule_format]

lemma visitAll_total:
  assumes f: "finite (dom byId)" and k: "keyed byId"
  shows "pendingCount byId st < depth \<Longrightarrow> visiting st = {} \<Longrightarrow>
         \<forall>x \<in> set xs. byId (subtaskId x) \<noteq> None \<Longrightarrow>
         \<exists>st'. visitAll depth byId xs st = Some st' \<and> visitStep byId st st' \<and>
               subtaskId ` set xs \<subseteq> visited st'"
proof (induction xs arbitrary: st)
  case Nil
  then show ?case by (simp add: visitStep_refl)
next
  case (Cons x xs)
  from visit_total[OF f k Cons.prems(1), of "subtaskId x"] Cons.prems obtain st1 where
    v: "visit depth byId (subtaskId x) st = Some st1" and s1: "visitStep byId st st1"
    and x: "subtaskId x \<in> visited st1" by auto
  have c: "pendingCount byId st1 < depth"
    using pendingCount_mono[OF f s1] Cons.prems(1) by simp
  have e: "visiting st1 = {}" using s1 Cons.prems(2) by (simp add: visitStep_def)
  from Cons.IH[OF c e] Cons.prems(3) obtain st2 where
    a: "visitAll depth byId xs st1 = Some st2" and s2: "visitStep byId st1 st2"
    and sub: "subtaskId ` set xs \<subseteq> visited st2" by auto
  have "subtaskId x \<in> visited st2" using x s2 by (auto simp: visitStep_def)
  then show ?case using v a sub visitStep_trans[OF s1 s2] by simp
qed

lemma subtaskMap_dom: "dom (subtaskMap xs) = subtaskId ` set xs"
  by (simp add: subtaskMap_def dom_map_of_conv_image_fst image_image)

lemma subtaskMap_keyed: "keyed (subtaskMap xs)"
  by (auto simp: keyed_def subtaskMap_def dest!: map_of_SomeD)

lemma subtaskMap_mem: "subtaskMap xs k = Some v \<Longrightarrow> v \<in> set xs"
  by (auto simp: subtaskMap_def dest!: map_of_SomeD)

lemma topologicalOrder_sound:
  "\<exists>ys. topologicalOrder xs = Some ys \<and> distinct (map subtaskId ys) \<and>
        set (map subtaskId ys) = set (map subtaskId xs) \<and>
        (\<forall>y \<in> set ys. subtaskMap xs (subtaskId y) = Some y)"
proof -
  let ?m = "subtaskMap xs"
  let ?s0 = "\<lparr> visited = {}, visiting = {}, orderedSoFar = [] \<rparr>"
  have f: "finite (dom ?m)" by (simp add: subtaskMap_dom)
  have "card (subtaskId ` set xs) \<le> length xs"
    by (rule le_trans[OF card_image_le[OF finite_set] card_length])
  then have c: "pendingCount ?m ?s0 < Suc (length xs)"
    by (simp add: pendingCount_def subtaskMap_dom)
  have d: "\<forall>x \<in> set xs. ?m (subtaskId x) \<noteq> None"
  proof
    fix x assume "x \<in> set xs"
    then have "subtaskId x \<in> dom ?m" unfolding subtaskMap_dom by simp
    then show "?m (subtaskId x) \<noteq> None" by blast
  qed
  have e: "visiting ?s0 = {}" by simp
  from visitAll_total[OF f subtaskMap_keyed c e d] obtain st' where
    a: "visitAll (Suc (length xs)) ?m xs ?s0 = Some st'" and s: "visitStep ?m ?s0 st'"
    and sub: "subtaskId ` set xs \<subseteq> visited st'" by blast
  have "visitInv ?m ?s0" by (simp add: visitInv_def)
  then have inv: "visitInv ?m st'" using s by (simp add: visitStep_def)
  have "visited st' \<subseteq> dom ?m"
  proof
    fix k assume kv: "k \<in> visited st'"
    have eq: "subtaskId ` set (orderedSoFar st') = visited st'"
      using inv by (simp add: visitInv_def)
    have "k \<in> subtaskId ` set (orderedSoFar st')" unfolding eq by (rule kv)
    then obtain y where y: "k = subtaskId y" "y \<in> set (orderedSoFar st')" by (rule imageE)
    have "\<forall>x \<in> set (orderedSoFar st'). ?m (subtaskId x) = Some x"
      using inv by (simp add: visitInv_def)
    then have "?m k = Some y" using y by simp
    then show "k \<in> dom ?m" by (rule domI)
  qed
  then have v: "visited st' = subtaskId ` set xs" using sub unfolding subtaskMap_dom by blast
  have t: "topologicalOrder xs = Some (orderedSoFar st')"
    using a by (simp add: topologicalOrder_def)
  have i1: "distinct (map subtaskId (orderedSoFar st'))"
    and i2: "set (map subtaskId (orderedSoFar st')) = visited st'"
    and i3: "\<forall>y \<in> set (orderedSoFar st'). ?m (subtaskId y) = Some y"
    using inv unfolding visitInv_def by blast+
  have "set (map subtaskId (orderedSoFar st')) = set (map subtaskId xs)"
    unfolding i2 v by simp
  with t i1 i3 show ?thesis by blast
qed


lemma topologicalOrder_perm:
  assumes dx: "distinct (map subtaskId xs)" and t: "topologicalOrder xs = Some ys"
  shows "mset ys = mset xs"
proof -
  from topologicalOrder_sound[of xs] t have d: "distinct (map subtaskId ys)"
    and e: "set (map subtaskId ys) = set (map subtaskId xs)"
    and m: "\<forall>y \<in> set ys. subtaskMap xs (subtaskId y) = Some y" by auto
  have sub: "set ys \<subseteq> set xs" using m subtaskMap_mem by blast
  have "card (set ys) = length ys" using d by (simp add: distinct_card distinct_map)
  also have "\<dots> = card (set (map subtaskId ys))" using distinct_card[OF d] by simp
  also have "\<dots> = length xs" unfolding e using distinct_card[OF dx] by simp
  also have "\<dots> = card (set xs)" using dx by (simp add: distinct_card distinct_map)
  finally have "card (set ys) = card (set xs)" .
  then have "set ys = set xs" using sub by (simp add: card_subset_eq)
  moreover have "distinct ys" "distinct xs" using d dx by (auto simp: distinct_map)
  ultimately show ?thesis by (simp add: set_eq_iff_mset_eq_distinct)
qed

lemma digitChar_inj: "a < 10 \<Longrightarrow> b < 10 \<Longrightarrow> digitChar a = digitChar b \<Longrightarrow> a = b"
proof -
  assume a: "a < 10" and b: "b < 10" and e: "digitChar a = digitChar b"
  have d: "distinct ''0123456789''" by simp
  show "a = b" using nth_eq_iff_index_eq[OF d, of a b] a b e by (simp add: digitChar_def)
qed

lemma showNat_nonempty: "showNat n \<noteq> []"
  by (subst showNat.simps) simp

lemma showNat_inj: "showNat n = showNat m \<Longrightarrow> n = m"
proof (induction n arbitrary: m rule: showNat.induct)
  case (1 n)
  show ?case
  proof (cases "n < 10")
    case True
    then have n: "showNat n = [digitChar n]" by (subst showNat.simps) simp
    show ?thesis
    proof (cases "m < 10")
      case m: True
      then have "showNat m = [digitChar m]" by (subst showNat.simps) simp
      with n "1.prems" have "digitChar n = digitChar m" by simp
      then show ?thesis using True m by (rule digitChar_inj[rotated 2])
    next
      case False
      then have "showNat m = showNat (m div 10) @ [digitChar (m mod 10)]"
        by (subst showNat.simps) simp
      with n "1.prems" showNat_nonempty[of "m div 10"] show ?thesis by (cases "showNat (m div 10)") auto
    qed
  next
    case False
    then have n: "showNat n = showNat (n div 10) @ [digitChar (n mod 10)]"
      by (subst showNat.simps) simp
    show ?thesis
    proof (cases "m < 10")
      case True
      then have "showNat m = [digitChar m]" by (subst showNat.simps) simp
      with n "1.prems" showNat_nonempty[of "n div 10"] show ?thesis by (cases "showNat (n div 10)") auto
    next
      case m: False
      then have "showNat m = showNat (m div 10) @ [digitChar (m mod 10)]"
        by (subst showNat.simps) simp
      with n "1.prems" have a: "showNat (n div 10) = showNat (m div 10)"
        and b: "digitChar (n mod 10) = digitChar (m mod 10)" by auto
      have "n div 10 = m div 10" using "1.IH"[OF False a] .
      moreover have "n mod 10 = m mod 10" using b by (intro digitChar_inj) auto
      ultimately show ?thesis by (metis div_mult_mod_eq)
    qed
  qed
qed

lemma stepIdByIndex_inj: "stepIdByIndex a = stepIdByIndex b \<Longrightarrow> a = b"
  using showNat_inj[of "a + 1" "b + 1"] by (simp add: stepIdByIndex_def)

lemma resolveStepDependencies_earlier:
  assumes "d \<in> set (resolveStepDependencies deps ordered i)"
  shows "\<exists>j < i. d = stepIdByIndex j"
proof (cases "filter (\<lambda>index. index \<noteq> None \<and> the index < i) (map (indexById ordered) deps) = []")
  case True
  show ?thesis
  proof (cases "i = 0")
    case z: True
    then show ?thesis using assms True by (simp add: resolveStepDependencies_def Let_def)
  next
    case False
    then have "d = stepIdByIndex (i - 1)"
      using assms True by (simp add: resolveStepDependencies_def Let_def)
    then show ?thesis using False by (intro exI[of _ "i - 1"]) simp
  qed
next
  case False
  then have "d \<in> (\<lambda>index. stepIdByIndex (the index)) `
                 set (filter (\<lambda>index. index \<noteq> None \<and> the index < i) (map (indexById ordered) deps))"
    using assms by (simp add: resolveStepDependencies_def Let_def)
  then show ?thesis by auto
qed

lemma indexById_Some_iff:
  assumes "distinct (map subtaskId ordered)"
  shows "indexById ordered d = Some j \<longleftrightarrow> j < length ordered \<and> subtaskId (ordered ! j) = d"
proof -
  let ?z = "zip (map subtaskId ordered) [0..<length ordered]"
  have "map fst (rev ?z) = rev (map subtaskId ordered)"
    by (subst rev_map[symmetric]) simp
  then have "distinct (map fst (rev ?z))" using assms by simp
  then have "indexById ordered d = Some j \<longleftrightarrow> (d, j) \<in> set (rev ?z)"
    unfolding indexById_def by (rule map_of_eq_Some_iff)
  also have "\<dots> \<longleftrightarrow> j < length ordered \<and> subtaskId (ordered ! j) = d"
  proof
    assume "(d, j) \<in> set (rev ?z)"
    then show "j < length ordered \<and> subtaskId (ordered ! j) = d" by (auto simp: set_zip)
  next
    assume a: "j < length ordered \<and> subtaskId (ordered ! j) = d"
    then have "(d, j) = ?z ! j" by simp
    moreover have "j < length ?z" using a by simp
    ultimately have "(d, j) \<in> set ?z" by (metis nth_mem)
    then show "(d, j) \<in> set (rev ?z)" by simp
  qed
  finally show ?thesis .
qed

lemma positionOf_nth:
  assumes d: "distinct (map subtaskId ordered)" and j: "j < length ordered"
  shows "positionOf ordered (subtaskId (ordered ! j)) = j"
proof -
  have "takeWhile (\<lambda>subtask. subtaskId subtask \<noteq> subtaskId (ordered ! j)) ordered = take j ordered"
  proof (rule takeWhile_eq_take_P_nth)
    fix i assume "i < j" "i < length ordered"
    then have "map subtaskId ordered ! i \<noteq> map subtaskId ordered ! j"
      using nth_eq_iff_index_eq[OF d, of i j] j by simp
    then show "subtaskId (ordered ! i) \<noteq> subtaskId (ordered ! j)"
      using \<open>i < length ordered\<close> j by simp
  qed simp
  then show ?thesis using j by (simp add: positionOf_def)
qed

lemma earlier_iff:
  assumes d: "distinct (map subtaskId ordered)" and k: "k \<le> length ordered"
  shows "(indexById ordered x \<noteq> None \<and> the (indexById ordered x) < k) \<longleftrightarrow>
         x \<in> subtaskId ` set (take k ordered)"
proof
  assume a: "indexById ordered x \<noteq> None \<and> the (indexById ordered x) < k"
  then obtain j where j: "indexById ordered x = Some j" "j < k" by auto
  then have "j < length ordered" "subtaskId (ordered ! j) = x"
    using indexById_Some_iff[OF d] by auto
  then have "take k ordered ! j = ordered ! j" "j < length (take k ordered)" using j k by auto
  then have "ordered ! j \<in> set (take k ordered)" by (metis nth_mem)
  then show "x \<in> subtaskId ` set (take k ordered)"
    using \<open>subtaskId (ordered ! j) = x\<close> by blast
next
  assume "x \<in> subtaskId ` set (take k ordered)"
  then obtain y where y: "y \<in> set (take k ordered)" "x = subtaskId y" by blast
  then obtain j where j: "j < length (take k ordered)" "take k ordered ! j = y"
    unfolding in_set_conv_nth by blast
  then have "j < k" "j < length ordered" "subtaskId (ordered ! j) = x" using y k by auto
  then have "indexById ordered x = Some j" using indexById_Some_iff[OF d] by simp
  then show "indexById ordered x \<noteq> None \<and> the (indexById ordered x) < k" using \<open>j < k\<close> by simp
qed

lemma earlier_position:
  assumes d: "distinct (map subtaskId ordered)" and k: "k \<le> length ordered"
    and x: "x \<in> subtaskId ` set (take k ordered)"
  shows "the (indexById ordered x) = positionOf ordered x \<and> positionOf ordered x < k"
proof -
  from x have "indexById ordered x \<noteq> None \<and> the (indexById ordered x) < k"
    by (simp only: earlier_iff[OF d k])
  then obtain j where j: "indexById ordered x = Some j" "j < k" by auto
  then have "j < length ordered" "subtaskId (ordered ! j) = x"
    using indexById_Some_iff[OF d] by auto
  then have "positionOf ordered x = j" using positionOf_nth[OF d] by blast
  then show ?thesis using j by simp
qed

lemma resolveStepDependencies_char:
  assumes d: "distinct (map subtaskId ordered)" and k: "k \<le> length ordered"
  shows "resolveStepDependencies deps ordered k =
     (let earlier = filter (\<lambda>x. x \<in> subtaskId ` set (take k ordered)) deps in
      if earlier \<noteq> [] then map (\<lambda>x. stepIdByIndex (positionOf ordered x)) earlier
      else if k = 0 then [] else [stepIdByIndex (k - 1)])"
proof -
  let ?Q = "\<lambda>index. index \<noteq> None \<and> the index < k"
  let ?E = "filter (\<lambda>x. x \<in> subtaskId ` set (take k ordered)) deps"
  have f: "filter ?Q (map (indexById ordered) deps) = map (indexById ordered) ?E"
    unfolding filter_map comp_def using earlier_iff[OF d k] by simp
  have m: "map (\<lambda>index. stepIdByIndex (the index)) (map (indexById ordered) ?E) =
           map (\<lambda>x. stepIdByIndex (positionOf ordered x)) ?E"
    using earlier_position[OF d k] by simp
  show ?thesis
    unfolding resolveStepDependencies_def Let_def f m by simp
qed

lemma makeStep_fields:
  "stepId (makeStep input strategy ordered subtask index) = stepIdByIndex index"
  "stepOrder (makeStep input strategy ordered subtask index) = index + 1"
  "stepDependsOn (makeStep input strategy ordered subtask index) =
     resolveStepDependencies (subtaskDependsOn subtask) ordered index"
  by (simp_all add: makeStep_def Let_def stepIdByIndex_def)

lemma orderedSubtasks_total: "\<exists>ordered. orderedSubtasks input = Some ordered"
  unfolding orderedSubtasks_def Let_def using topologicalOrder_sound by blast

lemma buildPlan_steps:
  "\<exists>out ordered. buildPlan input = Some out \<and> orderedSubtasks input = Some ordered \<and>
     length (steps out) = length ordered \<and>
     (\<forall>k < length ordered. steps out ! k = makeStep input (resolveStrategy input) ordered (ordered ! k) k)"
proof -
  obtain ordered where o: "orderedSubtasks input = Some ordered"
    using orderedSubtasks_total by blast
  define stepList where "stepList = map (\<lambda>(subtask, index). makeStep input (resolveStrategy input) ordered subtask index)
                               (zip ordered [0..<length ordered])"
  obtain out where b: "buildPlan input = Some out" and st: "steps out = stepList"
    using o by (simp add: buildPlan_def Let_def stepList_def)
  have "length stepList = length ordered" by (simp add: stepList_def)
  moreover have "\<forall>k < length ordered. stepList ! k = makeStep input (resolveStrategy input) ordered (ordered ! k) k"
    by (simp add: stepList_def)
  ultimately show ?thesis using b o st by simp
qed

lemma stepId_graph_acyclic:
  assumes "\<And>a b. (a, b) \<in> E \<Longrightarrow> \<exists>k j. j < k \<and> a = stepIdByIndex k \<and> b = stepIdByIndex j"
  shows "acyclic E"
proof -
  have inj: "inj stepIdByIndex" by (rule injI) (rule stepIdByIndex_inj)
  have unrank: "inv stepIdByIndex (stepIdByIndex j) = j" for j
    using inj by (rule inv_f_f)
  have sub: "E\<inverse> \<subseteq> measure (inv stepIdByIndex)"
  proof (rule subrelI)
    fix b a assume "(b, a) \<in> E\<inverse>"
    then have "(a, b) \<in> E" by (rule converseD)
    from assms[OF this] obtain k j where kj: "j < k" "a = stepIdByIndex k" "b = stepIdByIndex j"
      by blast
    show "(b, a) \<in> measure (inv stepIdByIndex)"
      unfolding kj in_measure unrank by (rule kj(1))
  qed
  have "acyclic (measure (inv stepIdByIndex))" by (rule wf_acyclic[OF wf_measure])
  then have "acyclic (E\<inverse>)" using sub by (rule acyclic_subset)
  then show ?thesis by (simp only: acyclic_converse)
qed

text \<open>
  Claim C1. For every input of \<open>buildPlan\<close> (any goal, any subtask list with arbitrary
  dependency ids, cyclic ones included, any strategy, any policy) the call returns a
  plan; every id in a step's \<open>dependsOn\<close> is the id of a step of the plan whose order
  index is strictly smaller than that of the dependent step; and the dependency graph
  on step ids has no cycle.
\<close>

theorem buildPlan_acyclic:
  "\<exists>out. buildPlan input = Some out \<and>
     (\<forall>s \<in> set (steps out). \<forall>d \<in> set (stepDependsOn s).
        \<exists>t \<in> set (steps out). stepId t = d \<and> stepOrder t < stepOrder s) \<and>
     acyclic {(stepId s, d) | s d. s \<in> set (steps out) \<and> d \<in> set (stepDependsOn s)}"
proof -
  obtain out ordered where b: "buildPlan input = Some out"
    and len: "length (steps out) = length ordered"
    and nth: "\<forall>k < length ordered. steps out ! k = makeStep input (resolveStrategy input) ordered (ordered ! k) k"
    using buildPlan_steps by blast
  have edge: "\<exists>k j. j < k \<and> k < length ordered \<and> s = steps out ! k \<and> d = stepIdByIndex j"
    if "s \<in> set (steps out)" "d \<in> set (stepDependsOn s)" for s d
  proof -
    from that(1) obtain k where k: "k < length (steps out)" "steps out ! k = s"
      unfolding in_set_conv_nth by blast
    then have "stepDependsOn s = resolveStepDependencies (subtaskDependsOn (ordered ! k)) ordered k"
      using nth len by (auto simp: makeStep_fields)
    with that(2) have "d \<in> set (resolveStepDependencies (subtaskDependsOn (ordered ! k)) ordered k)"
      by simp
    from resolveStepDependencies_earlier[OF this] obtain j where "j < k" "d = stepIdByIndex j"
      by blast
    with k len show ?thesis by auto
  qed
  have ids: "stepId (steps out ! k) = stepIdByIndex k" "stepOrder (steps out ! k) = k + 1"
    if "k < length ordered" for k
    using that nth by (simp_all add: makeStep_fields)
  have part1: "\<forall>s \<in> set (steps out). \<forall>d \<in> set (stepDependsOn s).
        \<exists>t \<in> set (steps out). stepId t = d \<and> stepOrder t < stepOrder s"
  proof (intro ballI)
    fix s d assume "s \<in> set (steps out)" "d \<in> set (stepDependsOn s)"
    from edge[OF this] obtain k j where kj: "j < k" "k < length ordered" "s = steps out ! k" "d = stepIdByIndex j"
      by blast
    then have "steps out ! j \<in> set (steps out)" using len by simp
    moreover have "stepId (steps out ! j) = d" using kj ids[of j] by simp
    moreover have "stepOrder (steps out ! j) < stepOrder s" using kj ids[of j] ids[of k] by simp
    ultimately show "\<exists>t \<in> set (steps out). stepId t = d \<and> stepOrder t < stepOrder s" by blast
  qed
  have part2: "acyclic {(stepId s, d) | s d. s \<in> set (steps out) \<and> d \<in> set (stepDependsOn s)}"
  proof (rule stepId_graph_acyclic)
    fix a b assume "(a, b) \<in> {(stepId s, d) | s d. s \<in> set (steps out) \<and> d \<in> set (stepDependsOn s)}"
    then obtain s where s: "a = stepId s" "s \<in> set (steps out)" "b \<in> set (stepDependsOn s)" by blast
    from edge[OF s(2,3)] obtain k j where kj: "j < k" "k < length ordered" "s = steps out ! k" "b = stepIdByIndex j"
      by blast
    then have "a = stepIdByIndex k" using s(1) ids[of k] by simp
    with kj show "\<exists>k j. j < k \<and> a = stepIdByIndex k \<and> b = stepIdByIndex j" by blast
  qed
  from b part1 part2 show ?thesis by blast
qed

theorem buildPlan_acyclic_witness:
  "map_option (map stepDependsOn \<circ> steps) (buildPlan cyclicPlanInput) = Some [[], [''step_1''], [''step_2'']] \<and>
   (\<exists>out. buildPlan cyclicPlanInput = Some out \<and>
     (\<forall>s \<in> set (steps out). \<forall>d \<in> set (stepDependsOn s).
        \<exists>t \<in> set (steps out). stepId t = d \<and> stepOrder t < stepOrder s) \<and>
     acyclic {(stepId s, d) | s d. s \<in> set (steps out) \<and> d \<in> set (stepDependsOn s)})"
proof -
  have e: "map_option (map stepDependsOn \<circ> steps) (buildPlan cyclicPlanInput) = Some [[], [''step_1''], [''step_2'']]"
    by code_simp
  show ?thesis using e buildPlan_acyclic[of cyclicPlanInput] by blast
qed

lemma orderedSubtasks_distinct:
  assumes "orderedSubtasks input = Some ordered"
  shows "distinct (map subtaskId ordered)"
proof -
  obtain capped where "topologicalOrder capped = Some ordered"
    using assms unfolding orderedSubtasks_def Let_def by blast
  with topologicalOrder_sound[of capped] show ?thesis by simp
qed

text \<open>
  Claim C6, as the code has it. Step dependencies are remapped from subtask ids to step
  ids. The declared dependencies that name a subtask at an earlier position of the
  ordered sequence are kept, each as the step id of that position; declared
  dependencies at a later or unknown position are dropped. Only when no declared
  dependency is at an earlier position does the step depend on its immediate
  predecessor, or on nothing if it is the first step.
\<close>

theorem buildPlan_dependencies:
  "\<exists>out ordered. buildPlan input = Some out \<and> orderedSubtasks input = Some ordered \<and>
     length (steps out) = length ordered \<and>
     (\<forall>k < length ordered.
        stepDependsOn (steps out ! k) =
          (let earlier = filter (\<lambda>d. d \<in> subtaskId ` set (take k ordered)) (subtaskDependsOn (ordered ! k))
           in if earlier \<noteq> [] then map (\<lambda>d. stepId (steps out ! positionOf ordered d)) earlier
              else if k = 0 then [] else [stepId (steps out ! (k - 1))]))"
proof -
  obtain out ordered where b: "buildPlan input = Some out"
    and o: "orderedSubtasks input = Some ordered"
    and len: "length (steps out) = length ordered"
    and nth: "\<forall>k < length ordered. steps out ! k = makeStep input (resolveStrategy input) ordered (ordered ! k) k"
    using buildPlan_steps by blast
  have d: "distinct (map subtaskId ordered)" using o by (rule orderedSubtasks_distinct)
  have ids: "stepId (steps out ! k) = stepIdByIndex k" if "k < length ordered" for k
    using that nth by (simp add: makeStep_fields)
  have main: "stepDependsOn (steps out ! k) =
          (let earlier = filter (\<lambda>d. d \<in> subtaskId ` set (take k ordered)) (subtaskDependsOn (ordered ! k))
           in if earlier \<noteq> [] then map (\<lambda>d. stepId (steps out ! positionOf ordered d)) earlier
              else if k = 0 then [] else [stepId (steps out ! (k - 1))])"
    if k: "k < length ordered" for k
  proof -
    let ?E = "filter (\<lambda>d. d \<in> subtaskId ` set (take k ordered)) (subtaskDependsOn (ordered ! k))"
    have kl: "k \<le> length ordered" using k by simp
    have pos: "positionOf ordered x < length ordered" if "x \<in> set ?E" for x
    proof -
      from that have "x \<in> subtaskId ` set (take k ordered)" by simp
      from earlier_position[OF d kl this] k show ?thesis by simp
    qed
    have m: "map (\<lambda>x. stepIdByIndex (positionOf ordered x)) ?E =
             map (\<lambda>x. stepId (steps out ! positionOf ordered x)) ?E"
      by (rule map_cong[OF refl]) (simp add: ids pos)
    have p: "stepIdByIndex (k - 1) = stepId (steps out ! (k - 1))" using k by (simp add: ids)
    have "stepDependsOn (steps out ! k) =
            resolveStepDependencies (subtaskDependsOn (ordered ! k)) ordered k"
      using k nth by (simp add: makeStep_fields)
    then show ?thesis
      unfolding resolveStepDependencies_char[OF d kl] Let_def m p by simp
  qed
  from b o len main show ?thesis by blast
qed

theorem buildPlan_dependencies_witness:
  "map_option (map subtaskId) (orderedSubtasks cyclicPlanInput) = Some [''b'', ''a'', ''c''] \<and>
   (\<exists>out ordered. buildPlan cyclicPlanInput = Some out \<and> orderedSubtasks cyclicPlanInput = Some ordered \<and>
     length (steps out) = length ordered \<and>
     (\<forall>k < length ordered.
        stepDependsOn (steps out ! k) =
          (let earlier = filter (\<lambda>d. d \<in> subtaskId ` set (take k ordered)) (subtaskDependsOn (ordered ! k))
           in if earlier \<noteq> [] then map (\<lambda>d. stepId (steps out ! positionOf ordered d)) earlier
              else if k = 0 then [] else [stepId (steps out ! (k - 1))])))"
proof -
  have e: "map_option (map subtaskId) (orderedSubtasks cyclicPlanInput) = Some [''b'', ''a'', ''c'']"
    by code_simp
  show ?thesis using e buildPlan_dependencies[of cyclicPlanInput] by blast
qed

text \<open>
  Claim C6 as stated fails: the third subtask declares the dependencies \<open>a\<close> (earlier)
  and \<open>zzz\<close> (unknown), and its step depends on \<open>step_1\<close> only, not on its immediate
  predecessor \<open>step_2\<close>.
\<close>

theorem buildPlan_mixed_dependencies_counterexample:
  "map_option (map subtaskDependsOn) (orderedSubtasks mixedPlanInput) = Some [[], [], [''a'', ''zzz'']] \<and>
   map_option (map stepId \<circ> steps) (buildPlan mixedPlanInput) = Some [''step_1'', ''step_2'', ''step_3''] \<and>
   map_option (map stepDependsOn \<circ> steps) (buildPlan mixedPlanInput) = Some [[], [''step_1''], [''step_1'']]"
  by code_simp

text \<open>
  Claim C10, as the code has it. For every subtask list whose ids are pairwise distinct
  (dependency cycles and dependencies on unknown ids included) the topological ordering
  returns a permutation of its input.
\<close>

theorem topologicalOrder_permutation:
  assumes "distinct (map subtaskId subtasks)"
  shows "\<exists>ordered. topologicalOrder subtasks = Some ordered \<and> mset ordered = mset subtasks"
proof -
  obtain ordered where t: "topologicalOrder subtasks = Some ordered"
    using topologicalOrder_sound by blast
  then have "mset ordered = mset subtasks" using assms by (intro topologicalOrder_perm)
  with t show ?thesis by blast
qed

theorem topologicalOrder_permutation_witness:
  "distinct (map subtaskId cyclicSubtasks) \<and>
   (\<exists>ordered. topologicalOrder cyclicSubtasks = Some ordered \<and> mset ordered = mset cyclicSubtasks)"
proof -
  have d: "distinct (map subtaskId cyclicSubtasks)" by (simp add: cyclicSubtasks_def)
  show ?thesis using d topologicalOrder_permutation[OF d] by blast
qed

text \<open>
  Claim C10 as stated fails on a list in which two subtasks share an id: the map from
  ids to subtasks keeps the last one, and the first is lost.
\<close>

theorem topologicalOrder_duplicate_counterexample:
  "topologicalOrder duplicateIdSubtasks = Some [duplicateIdSubtasks ! 1] \<and>
   mset [duplicateIdSubtasks ! 1] \<noteq> mset duplicateIdSubtasks"
proof -
  have a: "topologicalOrder duplicateIdSubtasks = Some [duplicateIdSubtasks ! 1]" by code_simp
  have "size (mset [duplicateIdSubtasks ! 1]) \<noteq> size (mset duplicateIdSubtasks)"
    by (simp add: duplicateIdSubtasks_def)
  then have "mset [duplicateIdSubtasks ! 1] \<noteq> mset duplicateIdSubtasks" by metis
  with a show ?thesis by simp
qed

section \<open>Properties of the Decomposer\<close>

lemma insertBy_set: "set (insertBy c x ys) = insert x (set ys)"
  by (induction ys) auto

lemma sortBy_set: "set (sortBy c xs) = set xs"
  unfolding sortBy_def by (induction xs) (auto simp: insertBy_set)

lemma insertBy_sorted:
  assumes total: "\<And>a b. c a b \<le> 0 \<or> c b a \<le> 0"
    and trans: "\<And>a b d. c a b \<le> 0 \<Longrightarrow> c b d \<le> 0 \<Longrightarrow> c a d \<le> 0"
  shows "sorted_wrt (\<lambda>a b. c a b \<le> 0) ys \<Longrightarrow> sorted_wrt (\<lambda>a b. c a b \<le> 0) (insertBy c x ys)"
proof (induction ys)
  case Nil
  then show ?case by simp
next
  case (Cons y ys)
  show ?case
  proof (cases "c x y \<le> 0")
    case True
    then have "\<forall>z \<in> set ys. c x z \<le> 0" using Cons.prems trans by auto
    then show ?thesis using True Cons.prems by simp
  next
    case False
    then have "c y x \<le> 0" using total[of x y] by simp
    then show ?thesis using False Cons by (auto simp: insertBy_set)
  qed
qed

lemma sortBy_sorted:
  assumes total: "\<And>a b. c a b \<le> 0 \<or> c b a \<le> 0"
    and trans: "\<And>a b d. c a b \<le> 0 \<Longrightarrow> c b d \<le> 0 \<Longrightarrow> c a d \<le> 0"
  shows "sorted_wrt (\<lambda>a b. c a b \<le> 0) (sortBy c xs)"
  unfolding sortBy_def
proof (induction xs)
  case Nil
  then show ?case by simp
next
  case (Cons x xs)
  then show ?case using insertBy_sorted[of c, OF total trans] by simp
qed

lemma sortBy_head_least:
  assumes total: "\<And>a b. c a b \<le> 0 \<or> c b a \<le> 0"
    and trans: "\<And>a b d. c a b \<le> 0 \<Longrightarrow> c b d \<le> 0 \<Longrightarrow> c a d \<le> 0"
    and s: "sortBy c xs = first # rest"
  shows "first \<in> set xs \<and> (\<forall>p \<in> set xs. c first p \<le> 0)"
proof -
  have m: "set xs = insert first (set rest)" using sortBy_set[of c xs] s by simp
  have "sorted_wrt (\<lambda>a b. c a b \<le> 0) (first # rest)"
    using sortBy_sorted[of c xs, OF total trans] s by simp
  then have "\<forall>p \<in> set rest. c first p \<le> 0" by simp
  moreover have "c first first \<le> 0" using total[of first first] by simp
  ultimately show ?thesis using m by simp
qed

lemma comparePaths_le:
  "comparePaths ix a b \<le> 0 \<longleftrightarrow>
     length b < length a \<or> (length a = length b \<and> lastIndex ix a \<le> lastIndex ix b)"
  by (auto simp: comparePaths_def)

lemma bestPathLoop_nonempty: "acc \<noteq> [] \<or> xs \<noteq> [] \<Longrightarrow> bestPathLoop acc xs \<noteq> []"
proof (induction xs arbitrary: acc)
  case Nil
  then show ?case by simp
next
  case (Cons x xs)
  have "AList.update k v acc \<noteq> []" for k v by (cases acc) auto
  then show ?case using Cons.IH by simp
qed

lemma computeCriticalPath_least:
  assumes "subtasks \<noteq> []"
  shows "computeCriticalPath subtasks \<in> set (map snd (bestPathLoop [] subtasks)) \<and>
         (\<forall>p \<in> set (map snd (bestPathLoop [] subtasks)).
            comparePaths (indexLoop [] (zip subtasks [0..<length subtasks])) (computeCriticalPath subtasks) p \<le> 0)"
proof -
  let ?ix = "indexLoop [] (zip subtasks [0..<length subtasks])"
  let ?c = "map snd (bestPathLoop [] subtasks)"
  have "?c \<noteq> []" using bestPathLoop_nonempty[of "[]" subtasks] assms by simp
  then have "set (sortBy (comparePaths ?ix) ?c) \<noteq> {}" unfolding sortBy_set by simp
  then obtain first rest where s: "sortBy (comparePaths ?ix) ?c = first # rest"
    by (cases "sortBy (comparePaths ?ix) ?c") auto
  have cp: "computeCriticalPath subtasks = first"
    using assms s by (simp add: computeCriticalPath_def Let_def)
  have total: "\<And>a b. comparePaths ?ix a b \<le> 0 \<or> comparePaths ?ix b a \<le> 0"
    unfolding comparePaths_le by auto
  have trans: "\<And>a b d. comparePaths ?ix a b \<le> 0 \<Longrightarrow> comparePaths ?ix b d \<le> 0 \<Longrightarrow> comparePaths ?ix a d \<le> 0"
    unfolding comparePaths_le by auto
  show ?thesis unfolding cp by (rule sortBy_head_least[OF total trans s])
qed

text \<open>
  Claim C2, as the code has it. The critical path returned by \<open>decomposeTask\<close> is one
  of the candidate paths (the best path of each subtask), no candidate is longer, and
  among the candidates of the same, maximal length its final subtask is the one that
  appears earliest in template order: the comparator orders ties by
  \<open>lastA - lastB\<close>, ascending.
\<close>

theorem decomposeTask_criticalPath_tie:
  "let out = decomposeTask input;
       subtasks = decSubtasks out;
       candidates = map snd (bestPathLoop [] subtasks);
       position = lastIndex (indexLoop [] (zip subtasks [0..<length subtasks]))
   in subtasks \<noteq> [] \<longrightarrow>
        criticalPath out \<in> set candidates \<and>
        (\<forall>p \<in> set candidates.
           length p \<le> length (criticalPath out) \<and>
           (length p = length (criticalPath out) \<longrightarrow> position (criticalPath out) \<le> position p))"
proof -
  have cp: "criticalPath (decomposeTask input) = computeCriticalPath (decSubtasks (decomposeTask input))"
    by (simp add: decomposeTask_def Let_def)
  show ?thesis
    unfolding Let_def cp
  proof
    assume ne: "decSubtasks (decomposeTask input) \<noteq> []"
    from computeCriticalPath_least[OF ne]
    show "computeCriticalPath (decSubtasks (decomposeTask input))
            \<in> set (map snd (bestPathLoop [] (decSubtasks (decomposeTask input)))) \<and>
          (\<forall>p\<in>set (map snd (bestPathLoop [] (decSubtasks (decomposeTask input)))).
              length p \<le> length (computeCriticalPath (decSubtasks (decomposeTask input))) \<and>
              (length p = length (computeCriticalPath (decSubtasks (decomposeTask input))) \<longrightarrow>
               lastIndex (indexLoop [] (zip (decSubtasks (decomposeTask input))
                    [0..<length (decSubtasks (decomposeTask input))]))
                  (computeCriticalPath (decSubtasks (decomposeTask input)))
               \<le> lastIndex (indexLoop [] (zip (decSubtasks (decomposeTask input))
                    [0..<length (decSubtasks (decomposeTask input))])) p))"
      unfolding comparePaths_le by auto
  qed
qed

theorem decomposeTask_criticalPath_tie_witness:
  "decSubtasks (decomposeTask milestoneInput) \<noteq> [] \<and>
   (let out = decomposeTask milestoneInput;
       subtasks = decSubtasks out;
       candidates = map snd (bestPathLoop [] subtasks);
       position = lastIndex (indexLoop [] (zip subtasks [0..<length subtasks]))
   in subtasks \<noteq> [] \<longrightarrow>
        criticalPath out \<in> set candidates \<and>
        (\<forall>p \<in> set candidates.
           length p \<le> length (criticalPath out) \<and>
           (length p = length (criticalPath out) \<longrightarrow> position (criticalPath out) \<le> position p)))"
proof -
  have e: "decSubtasks (decomposeTask milestoneInput) \<noteq> []" by code_simp
  show ?thesis using e decomposeTask_criticalPath_tie[of milestoneInput] by blast
qed

text \<open>
  Claim C2 as stated fails in milestone mode on a four-subtask template: two paths of
  length three tie, one ending in \<open>subtask_3\<close> and one in \<open>subtask_4\<close>, and the
  returned critical path is the one ending in \<open>subtask_3\<close>, the earlier position.
\<close>

theorem decomposeTask_tie_counterexample:
  "map snd (bestPathLoop [] (decSubtasks (decomposeTask milestoneInput))) =
     [[''subtask_1''], [''subtask_1'', ''subtask_2''], [''subtask_1'', ''subtask_2'', ''subtask_3''],
      [''subtask_1'', ''subtask_2'', ''subtask_4'']] \<and>
   criticalPath (decomposeTask milestoneInput) = [''subtask_1'', ''subtask_2'', ''subtask_3'']"
  by code_simp

section \<open>Properties of the Task Analyzer\<close>

text \<open>
  Claim C9. \<open>analyzeTask\<close> on the task "Debug failing auth endpoint. Must use only
  SQLite. Cannot use external APIs. Why is it failing?" with the policy of mode
  \<open>small\<close> and no context returns task type \<open>debugging\<close>; its constraints are the two
  sentences "Must use only SQLite" and "Cannot use external APIs", the first containing
  the marker \<open>must\<close> and the second the marker \<open>cannot\<close> (markers are matched on the
  lower-cased text, as the extraction itself does); it reports at least one unknown; and
  the suggested workflow is exactly the six operations listed. This holds whatever
  identifiers are generated.
\<close>

theorem analyzeTask_debug_scenario:
  "taskType (analyzeTask uuids debugScenarioInput) = Debugging \<and>
   constraints (analyzeTask uuids debugScenarioInput) = [''Must use only SQLite'', ''Cannot use external APIs''] \<and>
   includesStr (toLowerCase (constraints (analyzeTask uuids debugScenarioInput) ! 0)) ''must'' \<and>
   includesStr (toLowerCase (constraints (analyzeTask uuids debugScenarioInput) ! 1)) ''cannot'' \<and>
   length (unknowns (analyzeTask uuids debugScenarioInput)) \<ge> 1 \<and>
   suggestedWorkflow (analyzeTask uuids debugScenarioInput) =
     [''decompose_task'', ''build_plan'', ''list_assumptions'', ''consistency_check'',
      ''critic_review'', ''next_best_action'']"
proof -
  let ?task = "normalizeWhitespace (analyzeTaskText debugScenarioInput)"
  have t: "detectTaskType ?task = Debugging" by code_simp
  have c: "extractConstraints ?task (analyzeConstraints debugScenarioInput) (analyzePolicy debugScenarioInput)
             = [''Must use only SQLite'', ''Cannot use external APIs'']"
    by code_simp
  have m: "includesStr (toLowerCase ''Must use only SQLite'') ''must''"
    and n: "includesStr (toLowerCase ''Cannot use external APIs'') ''cannot''"
    by code_simp+
  have u: "extractUnknowns ?task Debugging (analyzeContext debugScenarioInput) (analyzePolicy debugScenarioInput)
             = [''Target environment details are missing.'', ''Task contains unresolved questions.'',
                ''Explicit acceptance criteria are not stated.'']"
    by code_simp
  have w: "workflowByType Debugging =
     [''decompose_task'', ''build_plan'', ''list_assumptions'', ''consistency_check'',
      ''critic_review'', ''next_best_action'']"
    by (simp add: workflowByType_def)
  show ?thesis
    unfolding analyzeTask_def Let_def t c u w using m n by simp
qed

section \<open>Properties of the State Compactor\<close>

lemma firstOf_mem: "firstOf xs = Some x \<Longrightarrow> x \<in> set xs"
  by (cases xs) (auto simp: firstOf_def)

lemma pickCompressibleSection_props:
  assumes "pickCompressibleSection ws p = Some c"
  shows "c \<in> set ws \<and> length (sectionText c) > 80"
proof -
  from assms have "c \<in> set (filter (\<lambda>s. sectionStateKey s \<notin> set p \<or> length (sectionText s) > 140)
             (filter (\<lambda>s. length (sectionText s) > 80) ws))"
    unfolding pickCompressibleSection_def using firstOf_mem sortBy_set by fastforce
  then show ?thesis by simp
qed

lemma pickDroppableSection_props:
  assumes "pickDroppableSection ws p = Some d"
  shows "d \<in> set ws \<and> length (sectionText d) > 0"
proof -
  from assms have "d \<in> set (filter (\<lambda>s. sectionStateKey s \<notin> set p \<and> sectionStateKey s \<noteq> ''next-actions'')
             (filter (\<lambda>s. length (sectionText s) > 0) ws))"
    unfolding pickDroppableSection_def using firstOf_mem sortBy_set by fastforce
  then show ?thesis by simp
qed

lemma findIndexOfKey_distinct:
  assumes d: "distinct (map sectionStateKey ws)" and c: "c \<in> set ws"
  shows "\<exists>i. findIndexOfKey ws (sectionStateKey c) = Some i \<and> i < length ws \<and> ws ! i = c"
proof -
  from c obtain i where i: "i < length ws" "ws ! i = c" unfolding in_set_conv_nth by blast
  have "takeWhile (\<lambda>item. sectionStateKey item \<noteq> sectionStateKey c) ws = take i ws"
  proof (rule takeWhile_eq_take_P_nth)
    fix j assume j: "j < i" "j < length ws"
    have "map sectionStateKey ws ! j \<noteq> map sectionStateKey ws ! i"
      using nth_eq_iff_index_eq[OF d, of j i] j i by simp
    then show "sectionStateKey (ws ! j) \<noteq> sectionStateKey c" using j i by simp
  next
    assume "i < length ws"
    show "\<not> sectionStateKey (ws ! i) \<noteq> sectionStateKey c" using i by simp
  qed
  then have "findIndexOfKey ws (sectionStateKey c) = Some i"
    using i by (simp add: findIndexOfKey_def)
  with i show ?thesis by blast
qed

lemma textTotal_update:
  assumes "i < length ws"
  shows "textTotal (ws[i := v]) + length (sectionText (ws ! i)) = textTotal ws + length (sectionText v)"
  using assms unfolding textTotal_def
proof (induction ws arbitrary: i)
  case Nil
  then show ?case by simp
next
  case (Cons w ws)
  then show ?case by (cases i) auto
qed

lemma trimSectionText_shorter:
  assumes "length t > 80" shows "length (trimSectionText t) < length t"
proof -
  have "max 60 ((length t * 78) div 100) + 3 < length t" using assms by simp
  then show ?thesis using assms by (simp add: trimSectionText_def Let_def)
qed

lemma keys_update:
  assumes "i < length ws" "sectionStateKey v = sectionStateKey (ws ! i)"
  shows "map sectionStateKey (ws[i := v]) = map sectionStateKey ws"
  using assms by (simp add: map_update list_update_same_conv)

lemma compactLoop_total:
  "distinct (map sectionStateKey (working st)) \<Longrightarrow>
   \<exists>final. compactLoop preserve st = Some final \<and>
     (targetChars final = targetChars st \<and> int (length (compactedText final)) \<le> targetChars st \<or>
      targetChars final = (targetChars st * 11) div 10 \<and>
      targetChars st < int (length (compactedText final)) \<and>
      pickCompressibleSection (working final) preserve = None \<and>
      pickDroppableSection (working final) preserve = None)"
proof (induction "textTotal (working st)" arbitrary: st rule: less_induct)
  case less
  note d = less.prems
  show ?case
  proof (cases "int (length (compactedText st)) > targetChars st")
    case False
    then show ?thesis by (subst compactLoop.simps) simp
  next
    case over: True
    show ?thesis
    proof (cases "pickCompressibleSection (working st) preserve")
      case (Some c)
      from pickCompressibleSection_props[OF Some] have c: "c \<in> set (working st)"
        and l: "length (sectionText c) > 80" by auto
      from findIndexOfKey_distinct[OF d c] obtain i where
        i: "findIndexOfKey (working st) (sectionStateKey c) = Some i" "i < length (working st)"
           "working st ! i = c" by blast
      let ?v = "c\<lparr>sectionText := trimSectionText (sectionText c)\<rparr>"
      let ?w = "(working st)[i := ?v]"
      let ?st = "st\<lparr>working := ?w,
                     droppedOrCompressed := uniqueInOrder (droppedOrCompressed st) [sectionStateKey c],
                     compactedText := sectionsToText ?w\<rparr>"
      have "textTotal ?w + length (sectionText c) = textTotal (working st) + length (trimSectionText (sectionText c))"
        using textTotal_update[OF i(2), of ?v] i(3) by simp
      then have m: "textTotal (working ?st) < textTotal (working st)"
        using trimSectionText_shorter[OF l] by simp
      have k: "distinct (map sectionStateKey (working ?st))"
        using d keys_update[OF i(2), of ?v] i(3) by simp
      from less.hyps[OF m k] obtain final where
        "compactLoop preserve ?st = Some final"
        "targetChars final = targetChars st \<and> int (length (compactedText final)) \<le> targetChars st \<or>
         targetChars final = (targetChars st * 11) div 10 \<and>
         targetChars st < int (length (compactedText final)) \<and>
         pickCompressibleSection (working final) preserve = None \<and>
         pickDroppableSection (working final) preserve = None"
        by auto
      then show ?thesis
        using over Some i(1) by (subst compactLoop.simps) (simp add: assignAt_def Let_def)
    next
      case None
      show ?thesis
      proof (cases "pickDroppableSection (working st) preserve")
        case n2: None
        then show ?thesis using over None by (subst compactLoop.simps) simp
      next
        case (Some c)
        from pickDroppableSection_props[OF Some] have c: "c \<in> set (working st)"
          and l: "length (sectionText c) > 0" by auto
        from findIndexOfKey_distinct[OF d c] obtain i where
          i: "findIndexOfKey (working st) (sectionStateKey c) = Some i" "i < length (working st)"
             "working st ! i = c" by blast
        let ?v = "c\<lparr>sectionText := []\<rparr>"
        let ?w = "(working st)[i := ?v]"
        let ?st = "st\<lparr>working := ?w,
                       droppedOrCompressed := uniqueInOrder (droppedOrCompressed st) [sectionStateKey c],
                       compactedText := sectionsToText ?w\<rparr>"
        have "textTotal ?w + length (sectionText c) = textTotal (working st)"
          using textTotal_update[OF i(2), of ?v] i(3) by simp
        moreover have "0 < length (sectionText c)" using l by simp
        ultimately have "textTotal ?w < textTotal (working st)" by linarith
        then have m: "textTotal (working ?st) < textTotal (working st)" by simp
        have k: "distinct (map sectionStateKey (working ?st))"
          using d keys_update[OF i(2), of ?v] i(3) by simp
        from less.hyps[OF m k] obtain final where
          "compactLoop preserve ?st = Some final"
          "targetChars final = targetChars st \<and> int (length (compactedText final)) \<le> targetChars st \<or>
           targetChars final = (targetChars st * 11) div 10 \<and>
           targetChars st < int (length (compactedText final)) \<and>
           pickCompressibleSection (working final) preserve = None \<and>
           pickDroppableSection (working final) preserve = None"
          by auto
        then show ?thesis
          using over None Some i(1) by (subst compactLoop.simps) (simp add: assignAt_def Let_def)
      qed
    qed
  qed
qed

lemma truncateText_length: "0 \<le> maxChars \<Longrightarrow> int (length (truncateText s maxChars)) \<le> maxChars"
  by (auto simp: truncateText_def)

lemma sanitizeText_length: "0 \<le> maxChars \<Longrightarrow> int (length (sanitizeText s maxChars)) \<le> maxChars"
  by (simp add: sanitizeText_def truncateText_length)

lemma buildSections_keys: "distinct (map sectionStateKey (buildSections input))"
  by (simp add: buildSections_def Let_def mkSection_def)

text \<open>
  Claim C3. For every input of \<open>compactReasoningState\<close> (in particular for every target
  token budget of at least 50, and any plan, assumption and log state) the compression
  loop terminates, in a state \<open>final\<close>, and the call returns; the returned \<open>compactState\<close>
  is the compacted text of \<open>final\<close> cut to \<open>max(400, targetChars)\<close> characters, where
  \<open>targetChars\<close> is the target of \<open>final\<close>, and so it has at most that many characters.
  That target is either the target in characters, \<open>targetTokens * 4\<close>, and then the
  compacted text is within it, or that target relaxed once by 10 per cent, and then the
  compacted text exceeds the unrelaxed target and no section is left to compress or to
  drop.
\<close>

theorem compactReasoningState_converges:
  "\<exists>out final. compactRun input = Some final \<and> compactReasoningState input = Some out \<and>
     compactState out = sanitizeText (compactedText final) (max 400 (targetChars final)) \<and>
     int (length (compactState out)) \<le> max 400 (targetChars final) \<and>
     (targetChars final = resolveTargetTokens (compactTargetTokens input) (compactPolicy input) * 4 \<and>
        int (length (compactedText final))
          \<le> resolveTargetTokens (compactTargetTokens input) (compactPolicy input) * 4 \<or>
      targetChars final =
        (resolveTargetTokens (compactTargetTokens input) (compactPolicy input) * 4 * 11) div 10 \<and>
        resolveTargetTokens (compactTargetTokens input) (compactPolicy input) * 4
          < int (length (compactedText final)) \<and>
        pickCompressibleSection (working final)
          (uniqueInOrder [] (map sectionKey (case compactPreserve input of None \<Rightarrow> [] | Some ps \<Rightarrow> ps))) = None \<and>
        pickDroppableSection (working final)
          (uniqueInOrder [] (map sectionKey (case compactPreserve input of None \<Rightarrow> [] | Some ps \<Rightarrow> ps))) = None)"
proof -
  let ?t = "resolveTargetTokens (compactTargetTokens input) (compactPolicy input)"
  let ?p = "uniqueInOrder [] (map sectionKey (case compactPreserve input of None \<Rightarrow> [] | Some ps \<Rightarrow> ps))"
  let ?s0 = "\<lparr> working = buildSections input, droppedOrCompressed = [],
               compactedText = sectionsToText (buildSections input), targetChars = ?t * 4 \<rparr>"
  have "distinct (map sectionStateKey (working ?s0))" by (simp add: buildSections_keys)
  from compactLoop_total[OF this, of ?p] obtain final where
    f: "compactLoop ?p ?s0 = Some final"
    and r: "targetChars final = ?t * 4 \<and> int (length (compactedText final)) \<le> ?t * 4 \<or>
            targetChars final = (?t * 4 * 11) div 10 \<and> ?t * 4 < int (length (compactedText final)) \<and>
            pickCompressibleSection (working final) ?p = None \<and>
            pickDroppableSection (working final) ?p = None"
    by auto
  have run: "compactRun input = Some final" unfolding compactRun_def by (rule f)
  obtain out where o: "compactReasoningState input = Some out"
    and c: "compactState out = sanitizeText (compactedText final) (max 400 (targetChars final))"
    using f by (simp add: compactReasoningState_def Let_def)
  have "int (length (compactState out)) \<le> max 400 (targetChars final)"
    unfolding c by (rule sanitizeText_length) simp
  with run o c r show ?thesis by blast
qed

text \<open>
  A run that relaxes its target: with a target of 50 tokens, 200 characters, and all
  seven sections preserved, the text of an empty session, 297 characters, exceeds the
  target, no section is long enough to be compressed and none may be dropped; the loop is
  left with the target 220, and the state returned is within \<open>max(400, 220)\<close>.
\<close>

theorem compactReasoningState_converges_witness:
  "map_option targetChars (compactRun preservedSessionInput) = Some 220 \<and>
   map_option (length \<circ> compactState) (compactReasoningState preservedSessionInput) = Some 297 \<and>
   (\<exists>out final. compactRun preservedSessionInput = Some final \<and>
      compactReasoningState preservedSessionInput = Some out \<and>
      targetChars final = 220 \<and> 200 < int (length (compactedText final)) \<and>
      compactState out = sanitizeText (compactedText final) 400 \<and>
      int (length (compactState out)) \<le> 400)"
proof -
  have t: "resolveTargetTokens (compactTargetTokens preservedSessionInput) (compactPolicy preservedSessionInput) * 4
            = 200"
    by (simp add: preservedSessionInput_def resolveTargetTokens_def)
  have e1: "map_option targetChars (compactRun preservedSessionInput) = Some 220" by code_simp
  have e2: "map_option (length \<circ> compactState) (compactReasoningState preservedSessionInput) = Some 297"
    by code_simp
  from compactReasoningState_converges[of preservedSessionInput] obtain out final where
    run: "compactRun preservedSessionInput = Some final"
    and o: "compactReasoningState preservedSessionInput = Some out"
    and c: "compactState out = sanitizeText (compactedText final) (max 400 (targetChars final))"
    and l: "int (length (compactState out)) \<le> max 400 (targetChars final)"
    and d: "targetChars final = 200 \<and> int (length (compactedText final)) \<le> 200 \<or>
            targetChars final = (200 * 11) div 10 \<and> 200 < int (length (compactedText final))"
    unfolding t by blast
  from e1 run have tf: "targetChars final = 220" by simp
  from d tf have over: "200 < int (length (compactedText final))" by auto
  from c l tf have "compactState out = sanitizeText (compactedText final) 400"
    and "int (length (compactState out)) \<le> 400" by simp_all
  with run o tf over e1 e2 show ?thesis by blast
qed

section \<open>Properties of the Critic\<close>

lemma clamp_bounds: "lo \<le> hi \<Longrightarrow> lo \<le> clamp v lo hi \<and> clamp v lo hi \<le> hi"
  by (auto simp: clamp_def)

lemma resolveWeights_positive:
  "0 \<le> correctness (resolveWeights r) \<and> 0 \<le> completeness (resolveWeights r) \<and>
   0 \<le> risk (resolveWeights r) \<and> 0 \<le> testability (resolveWeights r) \<and>
   0 \<le> simplicity (resolveWeights r) \<and> 0 \<le> maintainability (resolveWeights r) \<and>
   0 < sumWeights (resolveWeights r)"
proof (cases r)
  case None
  then show ?thesis by (simp add: resolveWeights_def DEFAULT_WEIGHTS_def sumWeights_def)
next
  case (Some rb)
  let ?w = "\<lparr> correctness = (case rubricCorrectness rb of None \<Rightarrow> correctness DEFAULT_WEIGHTS | Some v \<Rightarrow> clamp v 0 5),
                   completeness = (case rubricCompleteness rb of None \<Rightarrow> completeness DEFAULT_WEIGHTS | Some v \<Rightarrow> clamp v 0 5),
                   risk = (case rubricRisk rb of None \<Rightarrow> risk DEFAULT_WEIGHTS | Some v \<Rightarrow> clamp v 0 5),
                   testability = (case rubricTestability rb of None \<Rightarrow> testability DEFAULT_WEIGHTS | Some v \<Rightarrow> clamp v 0 5),
                   simplicity = (case rubricSimplicity rb of None \<Rightarrow> simplicity DEFAULT_WEIGHTS | Some v \<Rightarrow> clamp v 0 5),
                   maintainability = (case rubricMaintainability rb of None \<Rightarrow> maintainability DEFAULT_WEIGHTS | Some v \<Rightarrow> clamp v 0 5) \<rparr>"
  have c: "0 \<le> clamp v 0 5" for v using clamp_bounds[of 0 5 v] by simp
  have nn: "0 \<le> correctness ?w" "0 \<le> completeness ?w" "0 \<le> risk ?w" "0 \<le> testability ?w"
    "0 \<le> simplicity ?w" "0 \<le> maintainability ?w"
    by (auto simp: DEFAULT_WEIGHTS_def c split: option.splits)
  show ?thesis
  proof (cases "sumWeights ?w = 0")
    case True
    then have "resolveWeights r = DEFAULT_WEIGHTS" using Some by (simp add: resolveWeights_def Let_def)
    then show ?thesis by (simp add: DEFAULT_WEIGHTS_def sumWeights_def)
  next
    case False
    then have e: "resolveWeights r = ?w" using Some by (simp add: resolveWeights_def Let_def)
    have "0 \<le> sumWeights ?w" using nn unfolding sumWeights_def by linarith
    then have "0 < sumWeights ?w" using False by simp
    then show ?thesis unfolding e using nn by blast
  qed
qed

lemma roundOne_lower: assumes "8 \<le> v" shows "75 / 10 \<le> roundOne v"
proof -
  have "(80::rat) \<le> v * 10 + 1 / 2" using assms by simp
  then have "80 \<le> \<lfloor>v * 10 + 1 / 2\<rfloor>" by (simp add: le_floor_iff)
  then have "(80::rat) \<le> of_int \<lfloor>v * 10 + 1 / 2\<rfloor>" by linarith
  then show ?thesis by (simp add: roundOne_def)
qed

lemma weightedTotalOf_lower:
  assumes w: "0 \<le> correctness w" "0 \<le> completeness w" "0 \<le> risk w" "0 \<le> testability w"
       "0 \<le> simplicity w" "0 \<le> maintainability w" "0 < sumWeights w"
    and s: "8 \<le> correctness sc" "8 \<le> completeness sc" "8 \<le> risk sc" "8 \<le> testability sc"
       "8 \<le> simplicity sc" "8 \<le> maintainability sc"
  shows "75 / 10 \<le> weightedTotalOf sc w"
proof -
  have m: "8 * b \<le> a * b" if "8 \<le> a" "0 \<le> b" for a b :: rat
    using that by (simp add: mult_right_mono)
  have "8 * sumWeights w \<le>
        correctness sc * correctness w + completeness sc * completeness w +
         risk sc * risk w + testability sc * testability w +
         simplicity sc * simplicity w + maintainability sc * maintainability w"
    unfolding sumWeights_def
    using m[OF s(1) w(1)] m[OF s(2) w(2)] m[OF s(3) w(3)] m[OF s(4) w(4)] m[OF s(5) w(5)] m[OF s(6) w(6)]
    by (simp add: algebra_simps)
  then have "8 \<le> (correctness sc * correctness w + completeness sc * completeness w +
         risk sc * risk w + testability sc * testability w +
         simplicity sc * simplicity w + maintainability sc * maintainability w) / sumWeights w"
    using w(7) by (simp add: le_divide_eq)
  then show ?thesis unfolding weightedTotalOf_def by (rule roundOne_lower)
qed

lemma resolveVerdict_char:
  "resolveVerdict sc wt fs =
     (if correctness sc < 5 \<or> completeness sc < 5 \<or>
         (\<exists>f \<in> set fs. severity f = High \<and> category f \<in> {Correctness, Completeness, RiskCategory})
      then Reject
      else if wt \<ge> 75 / 10 \<and> \<not> (\<exists>f \<in> set fs. severity f = High) then Approve
      else Revise)"
  by (auto simp: resolveVerdict_def Let_def list_ex_iff)

lemma runCriticReview_fields:
  "verdict (runCriticReview input) =
     resolveVerdict (scores (runCriticReview input)) (weightedTotal (runCriticReview input))
       (findings (runCriticReview input))"
  "weightedTotal (runCriticReview input) =
     weightedTotalOf (scores (runCriticReview input)) (resolveWeights (rubric input))"
  by (simp_all add: runCriticReview_def Let_def)

text \<open>
  Claim C4. For every critic input the verdict is \<open>reject\<close> iff correctness is below 5 or
  completeness is below 5 or some finding of the output is high-severity in category
  correctness, completeness or risk; otherwise it is \<open>approve\<close> iff the weighted total is
  at least 7.5 and no finding is high-severity; otherwise it is \<open>revise\<close>. In particular
  the verdict on scores with correctness 4 is \<open>reject\<close> whatever the other scores, the
  total and the findings are, and a subject whose six category scores are all at least
  8 and that has no high-severity finding gets \<open>approve\<close>.
\<close>

theorem critic_verdict:
  "(let out = runCriticReview input in
      verdict out =
        (if correctness (scores out) < 5 \<or> completeness (scores out) < 5 \<or>
            (\<exists>f \<in> set (findings out). severity f = High \<and>
               category f \<in> {Correctness, Completeness, RiskCategory})
         then Reject
         else if weightedTotal out \<ge> 75 / 10 \<and> \<not> (\<exists>f \<in> set (findings out). severity f = High)
         then Approve
         else Revise)) \<and>
   (correctness sc = 4 \<longrightarrow> resolveVerdict sc wt fs = Reject) \<and>
   (let out = runCriticReview input in
      (\<forall>c \<in> set categoryLabels. scoreOf (scores out) c \<ge> 8) \<and>
      \<not> (\<exists>f \<in> set (findings out). severity f = High)
      \<longrightarrow> verdict out = Approve)"
proof (intro conjI)
  show "let out = runCriticReview input in
      verdict out =
        (if correctness (scores out) < 5 \<or> completeness (scores out) < 5 \<or>
            (\<exists>f \<in> set (findings out). severity f = High \<and>
               category f \<in> {Correctness, Completeness, RiskCategory})
         then Reject
         else if weightedTotal out \<ge> 75 / 10 \<and> \<not> (\<exists>f \<in> set (findings out). severity f = High)
         then Approve
         else Revise)"
    unfolding Let_def runCriticReview_fields(1) resolveVerdict_char ..
  show "correctness sc = 4 \<longrightarrow> resolveVerdict sc wt fs = Reject"
    by (simp add: resolveVerdict_char)
  show "let out = runCriticReview input in
      (\<forall>c \<in> set categoryLabels. scoreOf (scores out) c \<ge> 8) \<and>
      \<not> (\<exists>f \<in> set (findings out). severity f = High)
      \<longrightarrow> verdict out = Approve"
    unfolding Let_def
  proof
    let ?out = "runCriticReview input"
    assume a: "(\<forall>c \<in> set categoryLabels. scoreOf (scores ?out) c \<ge> 8) \<and>
      \<not> (\<exists>f \<in> set (findings ?out). severity f = High)"
    then have s: "8 \<le> correctness (scores ?out)" "8 \<le> completeness (scores ?out)" "8 \<le> risk (scores ?out)"
      "8 \<le> testability (scores ?out)" "8 \<le> simplicity (scores ?out)" "8 \<le> maintainability (scores ?out)"
      by (simp_all add: categoryLabels_def scoreOf_def)
    have w: "75 / 10 \<le> weightedTotal ?out"
      unfolding runCriticReview_fields(2)
      using resolveWeights_positive[of "rubric input"] s by (intro weightedTotalOf_lower) auto
    show "verdict ?out = Approve"
      unfolding runCriticReview_fields(1) resolveVerdict_char using a s w by auto
  qed
qed

theorem critic_verdict_witness:
  "correctness lowCorrectnessScores = 4 \<and>
   resolveVerdict lowCorrectnessScores 9 [] = Reject \<and>
   scores (runCriticReview strongSubjectInput) =
      \<lparr> correctness = 17 / 2, completeness = 97 / 10, risk = 8, testability = 17 / 2,
        simplicity = 8, maintainability = 9 \<rparr> \<and>
   findings (runCriticReview strongSubjectInput) = [] \<and>
   verdict (runCriticReview strongSubjectInput) = Approve"
proof -
  have sc: "scoresOf (sourceTextOf strongSubjectInput) =
      \<lparr> correctness = 17 / 2, completeness = 97 / 10, risk = 8, testability = 17 / 2,
        simplicity = 8, maintainability = 9 \<rparr>"
    by code_simp
  have s: "scores (runCriticReview strongSubjectInput) =
      \<lparr> correctness = 17 / 2, completeness = 97 / 10, risk = 8, testability = 17 / 2,
        simplicity = 8, maintainability = 9 \<rparr>"
    by (simp add: runCriticReview_def Let_def sc)
  have f: "findings (runCriticReview strongSubjectInput) = []"
    by (simp add: runCriticReview_def Let_def sc buildFindings_def categoryLabels_def scoreOf_def capItems_def)
  have a: "correctness lowCorrectnessScores = 4" by (simp add: lowCorrectnessScores_def)
  have b: "\<forall>c \<in> set categoryLabels. scoreOf (scores (runCriticReview strongSubjectInput)) c \<ge> 8"
    unfolding s by (simp add: categoryLabels_def scoreOf_def)
  have c: "\<not> (\<exists>f \<in> set (findings (runCriticReview strongSubjectInput)). severity f = High)"
    unfolding f by simp
  from critic_verdict[of strongSubjectInput lowCorrectnessScores 9 "[]"] a b c
  have "resolveVerdict lowCorrectnessScores 9 [] = Reject \<and>
        verdict (runCriticReview strongSubjectInput) = Approve"
    unfolding Let_def by blast
  with a s f show ?thesis by blast
qed

section \<open>Properties of the Consistency Checker\<close>

lemma cyclePending_mono:
  assumes "finite (dom edges)" "cycleVisited st \<subseteq> cycleVisited st'"
  shows "cyclePending edges st' \<le> cyclePending edges st"
  unfolding cyclePending_def using assms by (intro card_mono) auto

lemma cyclePending_enter:
  assumes "finite (dom edges)" "edges node = Some ds" "node \<notin> cycleVisited st"
  shows "cyclePending edges (st\<lparr>cycleVisited := insert node (cycleVisited st),
                                 cycleStack := insert node (cycleStack st)\<rparr>) < cyclePending edges st"
proof -
  have "dom edges - insert node (cycleVisited st) \<subset> dom edges - cycleVisited st"
    using assms by auto
  then show ?thesis
    unfolding cyclePending_def using assms(1) by (simp add: psubset_card_mono)
qed

lemma dfs_total_aux:
  assumes f: "finite (dom edges)"
  shows "(\<forall>node st. cyclePending edges st < depth \<longrightarrow>
            (\<exists>st'. dfs depth uuids base policy edges node st = Some st' \<and>
                   cycleVisited st \<subseteq> cycleVisited st')) \<and>
         (\<forall>deps st. cyclePending edges st < depth \<longrightarrow>
            (\<exists>st'. dfsDeps depth uuids base policy edges deps st = Some st' \<and>
                   cycleVisited st \<subseteq> cycleVisited st'))"
proof (induction depth)
  case 0
  then show ?case by simp
next
  case (Suc n)
  have P: "\<exists>st'. dfs (Suc n) uuids base policy edges node st = Some st' \<and>
                 cycleVisited st \<subseteq> cycleVisited st'"
    if lt: "cyclePending edges st < Suc n" for node st
  proof (cases "node \<in> cycleStack st \<or> node \<in> cycleVisited st")
    case True
    then show ?thesis by auto
  next
    case False
    then have n1: "node \<notin> cycleStack st" and n2: "node \<notin> cycleVisited st" by auto
    let ?st1 = "st\<lparr>cycleVisited := insert node (cycleVisited st),
                      cycleStack := insert node (cycleStack st)\<rparr>"
    show ?thesis
    proof (cases "edges node")
      case None
      then show ?thesis using n1 n2 by auto
    next
      case (Some ds)
      have "cyclePending edges ?st1 < n"
        using cyclePending_enter[OF f Some n2] lt by simp
      with Suc obtain st2 where d: "dfsDeps n uuids base policy edges ds ?st1 = Some st2"
        and s: "cycleVisited ?st1 \<subseteq> cycleVisited st2" by blast
      have "cycleVisited st \<subseteq> cycleVisited (st2\<lparr>cycleStack := cycleStack st2 - {node}\<rparr>)"
        using s by auto
      then show ?thesis using Some n1 n2 d by simp
    qed
  qed
  have Q: "\<exists>st'. dfsDeps (Suc n) uuids base policy edges deps st = Some st' \<and>
                 cycleVisited st \<subseteq> cycleVisited st'"
    if lt: "cyclePending edges st < Suc n" for deps st
    using lt
  proof (induction deps arbitrary: st)
    case Nil
    then show ?case by simp
  next
    case (Cons d ds)
    show ?case
    proof (cases "edges d = None")
      case True
      then show ?thesis using Cons by simp
    next
      case False
      from P[OF Cons.prems, of d] obtain st1 where
        v: "dfs (Suc n) uuids base policy edges d st = Some st1"
        and s1: "cycleVisited st \<subseteq> cycleVisited st1" by blast
      have "cyclePending edges st1 < Suc n"
        using cyclePending_mono[OF f s1] Cons.prems by simp
      from Cons.IH[OF this] obtain st2 where
        "dfsDeps (Suc n) uuids base policy edges ds st1 = Some st2"
        "cycleVisited st1 \<subseteq> cycleVisited st2" by blast
      then show ?thesis using False v s1 by auto
    qed
  qed
  show ?case using P Q by blast
qed

lemmas dfs_total = dfs_total_aux[THEN conjunct1, rule_format]

lemma dfsAll_total:
  assumes f: "finite (dom edges)"
  shows "cyclePending edges st < depth \<Longrightarrow>
         \<exists>st'. dfsAll depth uuids base policy edges stepList st = Some st'"
proof (induction stepList arbitrary: st)
  case Nil
  then show ?case by simp
next
  case (Cons x xs)
  from dfs_total[OF f Cons.prems, of uuids base policy "checkStepId x"] obtain st1 where
    v: "dfs depth uuids base policy edges (checkStepId x) st = Some st1"
    and s1: "cycleVisited st \<subseteq> cycleVisited st1" by blast
  have "cyclePending edges st1 < depth"
    using cyclePending_mono[OF f s1] Cons.prems by simp
  from Cons.IH[OF this] v show ?case by simp
qed

lemma detectCircularDependencies_total:
  "\<exists>found. detectCircularDependencies uuids base stepList policy = Some found"
proof -
  let ?e = "edgeMap stepList"
  let ?s0 = "\<lparr> cycleVisited = {}, cycleStack = {}, cycleIssues = [] \<rparr>"
  have d: "dom ?e = checkStepId ` set stepList"
    by (simp add: edgeMap_def dom_map_of_conv_image_fst image_image)
  then have f: "finite (dom ?e)" by simp
  have "card (checkStepId ` set stepList) \<le> length stepList"
    by (rule le_trans[OF card_image_le[OF finite_set] card_length])
  then have c: "cyclePending ?e ?s0 < Suc (length stepList)"
    by (simp add: cyclePending_def d)
  from dfsAll_total[OF f c, of uuids base policy stepList] show ?thesis
    unfolding detectCircularDependencies_def by auto
qed

lemma pushCircular_total: "pushCircular targets uuids stepList policy found \<noteq> None"
proof (cases "CircularDeps \<in> set targets")
  case True
  obtain more where "detectCircularDependencies uuids (length found) stepList policy = Some more"
    using detectCircularDependencies_total by blast
  then show ?thesis using True by (simp add: pushCircular_def)
next
  case False
  then show ?thesis by (simp add: pushCircular_def)
qed

lemma case_option_total: "x \<noteq> None \<Longrightarrow> \<exists>r. (case x of None \<Rightarrow> None | Some v \<Rightarrow> Some (g v)) = Some r"
  by auto

lemma collectIssues_total: "\<exists>found. collectIssues uuids input = Some found"
  unfolding collectIssues_def Let_def by (rule case_option_total) (rule pushCircular_total)

text \<open>
  Claim C5. For every input \<open>runConsistencyCheck\<close> returns; its issue list is the list
  of all detected issues capped to the policy's \<open>maxFindings\<close>; \<open>pass\<close> is true iff that
  capped list is empty; and \<open>total\<close> and \<open>highSeverity\<close> count the capped list, not the
  list before the cap.
\<close>

theorem runConsistencyCheck_summary:
  "\<exists>found out. collectIssues uuids input = Some found \<and> runConsistencyCheck uuids input = Some out \<and>
     issues out = capItems found (maxFindings (checkPolicy input)) \<and>
     (summaryPass (summary out) \<longleftrightarrow> capItems found (maxFindings (checkPolicy input)) = []) \<and>
     summaryTotal (summary out) = length (capItems found (maxFindings (checkPolicy input))) \<and>
     summaryHighSeverity (summary out) =
       length (filter (\<lambda>issue. issueSeverity issue = High) (capItems found (maxFindings (checkPolicy input))))"
proof -
  obtain found where c: "collectIssues uuids input = Some found"
    using collectIssues_total by blast
  then show ?thesis by (simp add: runConsistencyCheck_def Let_def)
qed

section \<open>Policy Bounds of the Outputs\<close>



lemma capItems_shorter: "length (capItems xs n) \<le> length xs"
  by (simp add: capItems_def)



















































section \<open>Generated Identifiers\<close>

lemma eraseIssueId_makeIssue:
  "eraseIssueId (makeIssue uuid type sev description affected fix policy) =
   eraseIssueId (makeIssue [] type sev description affected fix policy)"
  by (simp add: eraseIssueId_def makeIssue_def)

lemma erased_snoc:
  "map eraseIssueId f1 = map eraseIssueId f2 \<Longrightarrow>
   map eraseIssueId (f1 @ [makeIssue ua type sev description affected fix policy]) =
   map eraseIssueId (f2 @ [makeIssue ub type sev description affected fix policy])"
  using eraseIssueId_makeIssue[of ua] eraseIssueId_makeIssue[of ub] by simp

lemma contradictionLoop_erased:
  "map eraseIssueId f1 = map eraseIssueId f2 \<Longrightarrow>
   map eraseIssueId (contradictionLoop u1 b1 policy f1 xs) =
   map eraseIssueId (contradictionLoop u2 b2 policy f2 xs)"
proof (induction xs arbitrary: f1 f2)
  case Nil
  then show ?case by simp
next
  case (Cons x xs)
  obtain a b where x: "x = (a, b)" by (cases x)
  show ?case unfolding x contradictionLoop.simps
    by (simp add: Cons.IH[OF Cons.prems] Cons.IH[OF erased_snoc[OF Cons.prems, where ub = "u2 (b2 + length f2)"]])
qed

lemma missingDepLoop_erased:
  "map eraseIssueId f1 = map eraseIssueId f2 \<Longrightarrow>
   map eraseIssueId (missingDepLoop u1 b1 policy indexes f1 xs) =
   map eraseIssueId (missingDepLoop u2 b2 policy indexes f2 xs)"
proof (induction xs arbitrary: f1 f2)
  case Nil
  then show ?case by simp
next
  case (Cons x xs)
  obtain index step depId where x: "x = (index, step, depId)" by (cases x)
  show ?case unfolding x missingDepLoop.simps
    by (simp add: Cons.IH[OF Cons.prems] Cons.IH[OF erased_snoc[OF Cons.prems, where ub = "u2 (b2 + length f2)"]]
          split: option.splits)
qed

lemma evidentialLoop_erased:
  "map eraseIssueId f1 = map eraseIssueId f2 \<Longrightarrow>
   map eraseIssueId (evidentialLoop u1 b1 policy logs f1 xs) =
   map eraseIssueId (evidentialLoop u2 b2 policy logs f2 xs)"
proof (induction xs arbitrary: f1 f2)
  case Nil
  then show ?case by simp
next
  case (Cons x xs)
  show ?case unfolding evidentialLoop.simps Let_def
    by (simp add: Cons.IH[OF Cons.prems] Cons.IH[OF erased_snoc[OF Cons.prems, where ub = "u2 (b2 + length f2)"]])
qed

lemma eraseCycleIds_eq:
  "eraseCycleIds a = eraseCycleIds b \<longleftrightarrow>
     cycleVisited a = cycleVisited b \<and> cycleStack a = cycleStack b \<and>
     map eraseIssueId (cycleIssues a) = map eraseIssueId (cycleIssues b)"
  by (cases a, cases b) (simp add: eraseCycleIds_def)

lemma map_option_eq_cases:
  assumes "map_option f x = map_option f y"
  obtains "x = None" "y = None" | a b where "x = Some a" "y = Some b" "f a = f b"
  using assms by (cases x; cases y; simp)

lemma dfs_erased_aux:
  "(\<forall>st2. eraseCycleIds st = eraseCycleIds st2 \<longrightarrow>
      map_option eraseCycleIds (dfs depth uuids base policy edges node st) =
      map_option eraseCycleIds (dfs depth uuids2 base2 policy edges node st2))"
  "(\<forall>st2. eraseCycleIds st = eraseCycleIds st2 \<longrightarrow>
      map_option eraseCycleIds (dfsDeps depth uuids base policy edges deps st) =
      map_option eraseCycleIds (dfsDeps depth uuids2 base2 policy edges deps st2))"
proof (induction depth uuids base policy edges node st and depth uuids base policy edges deps st
       rule: dfs_dfsDeps.induct)
  case (1 uuids base policy edges node st)
  show ?case by simp
next
  case (2 depth uuids base policy edges node st)
  show ?case
  proof (intro allI impI)
    fix st2
    assume e: "eraseCycleIds st = eraseCycleIds st2"
    then have v: "cycleVisited st = cycleVisited st2" and s: "cycleStack st = cycleStack st2"
      and i: "map eraseIssueId (cycleIssues st) = map eraseIssueId (cycleIssues st2)"
      by (simp_all add: eraseCycleIds_eq)
    show "map_option eraseCycleIds (dfs (Suc depth) uuids base policy edges node st) =
          map_option eraseCycleIds (dfs (Suc depth) uuids2 base2 policy edges node st2)"
    proof (cases "node \<in> cycleStack st")
      case True
      with s have "node \<in> cycleStack st2" by simp
      with True show ?thesis
        using erased_snoc[OF i] v s by (simp add: eraseCycleIds_eq)
    next
      case ns: False
      with s have ns2: "node \<notin> cycleStack st2" by simp
      show ?thesis
      proof (cases "node \<in> cycleVisited st")
        case True
        with v have "node \<in> cycleVisited st2" by simp
        with True ns ns2 e show ?thesis by simp
      next
        case nv: False
        with v have nv2: "node \<notin> cycleVisited st2" by simp
        let ?a = "st\<lparr>cycleVisited := insert node (cycleVisited st), cycleStack := insert node (cycleStack st)\<rparr>"
        let ?b = "st2\<lparr>cycleVisited := insert node (cycleVisited st2), cycleStack := insert node (cycleStack st2)\<rparr>"
        let ?deps = "case edges node of None \<Rightarrow> [] | Some ds \<Rightarrow> ds"
        have ab: "eraseCycleIds ?a = eraseCycleIds ?b" using v s i by (simp add: eraseCycleIds_eq)
        from "2.IH"[OF ns nv refl refl] ab
        have r: "map_option eraseCycleIds (dfsDeps depth uuids base policy edges ?deps ?a) =
                 map_option eraseCycleIds (dfsDeps depth uuids2 base2 policy edges ?deps ?b)"
          by blast
        from r show ?thesis
        proof (cases rule: map_option_eq_cases)
          case 1
          with ns ns2 nv nv2 show ?thesis by (simp add: Let_def)
        next
          case (2 x y)
          from 2(3) have "eraseCycleIds (x\<lparr>cycleStack := cycleStack x - {node}\<rparr>) =
                          eraseCycleIds (y\<lparr>cycleStack := cycleStack y - {node}\<rparr>)"
            by (simp add: eraseCycleIds_eq)
          with 2(1,2) ns ns2 nv nv2 show ?thesis by (simp add: Let_def)
        qed
      qed
    qed
  qed
next
  case (3 depth uuids base policy edges st)
  show ?case by simp
next
  case (4 depth uuids base policy edges dep rest st)
  show ?case
  proof (intro allI impI)
    fix st2
    assume e: "eraseCycleIds st = eraseCycleIds st2"
    show "map_option eraseCycleIds (dfsDeps depth uuids base policy edges (dep # rest) st) =
          map_option eraseCycleIds (dfsDeps depth uuids2 base2 policy edges (dep # rest) st2)"
    proof (cases "edges dep \<noteq> None")
      case True
      from "4.IH"(1)[OF True] e
      have r: "map_option eraseCycleIds (dfs depth uuids base policy edges dep st) =
               map_option eraseCycleIds (dfs depth uuids2 base2 policy edges dep st2)"
        by blast
      from r show ?thesis
      proof (cases rule: map_option_eq_cases)
        case 1
        with True show ?thesis by simp
      next
        case (2 x y)
        from "4.IH"(2)[OF True 2(1)] 2(3)
        have "map_option eraseCycleIds (dfsDeps depth uuids base policy edges rest x) =
              map_option eraseCycleIds (dfsDeps depth uuids2 base2 policy edges rest y)"
          by blast
        with True 2(1,2) show ?thesis by simp
      qed
    next
      case False
      from "4.IH"(3)[OF False] e
      have "map_option eraseCycleIds (dfsDeps depth uuids base policy edges rest st) =
            map_option eraseCycleIds (dfsDeps depth uuids2 base2 policy edges rest st2)"
        by blast
      with False show ?thesis by simp
    qed
  qed
qed

lemma dfsAll_erased:
  "eraseCycleIds st = eraseCycleIds st2 \<Longrightarrow>
   map_option eraseCycleIds (dfsAll depth u1 b1 policy edges stepList st) =
   map_option eraseCycleIds (dfsAll depth u2 b2 policy edges stepList st2)"
proof (induction stepList arbitrary: st st2)
  case Nil
  then show ?case by simp
next
  case (Cons step rest)
  from dfs_erased_aux(1)[of st depth u1 b1 policy edges "checkStepId step" u2 b2] Cons.prems
  have r: "map_option eraseCycleIds (dfs depth u1 b1 policy edges (checkStepId step) st) =
           map_option eraseCycleIds (dfs depth u2 b2 policy edges (checkStepId step) st2)"
    by blast
  from r show ?case
  proof (cases rule: map_option_eq_cases)
    case 1
    then show ?thesis by simp
  next
    case (2 x y)
    from Cons.IH[OF 2(3)] 2(1,2) show ?thesis by simp
  qed
qed

lemma detectCircularDependencies_erased:
  "map_option (map eraseIssueId) (detectCircularDependencies u1 b1 stepList policy) =
   map_option (map eraseIssueId) (detectCircularDependencies u2 b2 stepList policy)"
proof -
  let ?s0 = "\<lparr> cycleVisited = {}, cycleStack = {}, cycleIssues = [] \<rparr>"
  have r: "map_option eraseCycleIds (dfsAll (Suc (length stepList)) u1 b1 policy (edgeMap stepList) stepList ?s0) =
           map_option eraseCycleIds (dfsAll (Suc (length stepList)) u2 b2 policy (edgeMap stepList) stepList ?s0)"
    by (rule dfsAll_erased) simp
  from r show ?thesis
  proof (cases rule: map_option_eq_cases)
    case 1
    then show ?thesis by (simp add: detectCircularDependencies_def)
  next
    case (2 x y)
    from 2(3) have "map eraseIssueId (cycleIssues x) = map eraseIssueId (cycleIssues y)"
      by (simp add: eraseCycleIds_eq)
    with 2(1,2) show ?thesis by (simp add: detectCircularDependencies_def)
  qed
qed

lemma detectContradictions_erased:
  "map eraseIssueId (detectContradictions u1 b1 claims conclusions policy) =
   map eraseIssueId (detectContradictions u2 b2 claims conclusions policy)"
  unfolding detectContradictions_def by (rule contradictionLoop_erased) simp

lemma detectMissingSteps_erased:
  "map eraseIssueId (detectMissingSteps u1 b1 stepList planText conclusions policy) =
   map eraseIssueId (detectMissingSteps u2 b2 stepList planText conclusions policy)"
proof -
  have m: "map eraseIssueId (missingDepLoop u1 b1 policy indexes [] xs) =
           map eraseIssueId (missingDepLoop u2 b2 policy indexes [] xs)" for indexes xs
    by (rule missingDepLoop_erased) simp
  show ?thesis
    unfolding detectMissingSteps_def Let_def
    using erased_snoc[OF m] m eraseIssueId_makeIssue[of "u1 b1"] eraseIssueId_makeIssue[of "u2 b2"]
    by simp
qed

lemma detectUnsupportedClaims_erased:
  "map eraseIssueId (detectUnsupportedClaims u1 b1 claims conclusions assumptions decisionLogs policy) =
   map eraseIssueId (detectUnsupportedClaims u2 b2 claims conclusions assumptions decisionLogs policy)"
  unfolding detectUnsupportedClaims_def Let_def
  by (rule evidentialLoop_erased)
     (simp add: eraseIssueId_makeIssue[of "u1 _"] eraseIssueId_makeIssue[of "u2 _"])

lemma detectGoalDrift_erased:
  "map eraseIssueId (detectGoalDrift u1 b1 goalOpt claims conclusions stepTexts planText policy) =
   map eraseIssueId (detectGoalDrift u2 b2 goalOpt claims conclusions stepTexts planText policy)"
  unfolding detectGoalDrift_def Let_def
  by (simp add: eraseIssueId_makeIssue[of "u1 _"] eraseIssueId_makeIssue[of "u2 _"] split: option.splits)

lemma pushCircular_erased:
  assumes "map eraseIssueId f1 = map eraseIssueId f2"
  shows "map_option (map eraseIssueId) (pushCircular targets u1 stepList policy f1) =
         map_option (map eraseIssueId) (pushCircular targets u2 stepList policy f2)"
proof (cases "CircularDeps \<in> set targets")
  case True
  have r: "map_option (map eraseIssueId) (detectCircularDependencies u1 (length f1) stepList policy) =
           map_option (map eraseIssueId) (detectCircularDependencies u2 (length f2) stepList policy)"
    by (rule detectCircularDependencies_erased)
  from r show ?thesis
  proof (cases rule: map_option_eq_cases)
    case 1
    with True show ?thesis by (simp add: pushCircular_def)
  next
    case (2 x y)
    with True assms show ?thesis by (simp add: pushCircular_def)
  qed
next
  case False
  with assms show ?thesis by (simp add: pushCircular_def)
qed


lemma collectIssues_erased:
  "map_option (map eraseIssueId) (collectIssues u1 input) =
   map_option (map eraseIssueId) (collectIssues u2 input)"
proof -
  let ?p = "checkPolicy input"
  define targets where "targets = (case checkTargets input of
                       None \<Rightarrow> [Contradictions, MissingSteps, CircularDeps, UnsupportedClaims, GoalDriftTarget]
                     | Some ts \<Rightarrow> ts)"
  define claims where "claims = (case draft input of None \<Rightarrow> [] | Some d \<Rightarrow> (case draftClaims d of None \<Rightarrow> [] | Some v \<Rightarrow> v))"
  define conclusions where "conclusions = (case draft input of None \<Rightarrow> []
                         | Some d \<Rightarrow> (case draftConclusions d of None \<Rightarrow> [] | Some v \<Rightarrow> v))"
  define planText where "planText = (case draft input of None \<Rightarrow> [] | Some d \<Rightarrow> (case draftPlanText d of None \<Rightarrow> [] | Some v \<Rightarrow> v))"
  define i1 where "i1 = (\<lambda>u. if Contradictions \<in> set targets
                then detectContradictions u 0 claims conclusions ?p else [])"
  define i2 where "i2 = (\<lambda>u. if MissingSteps \<in> set targets
                then i1 u @ detectMissingSteps u (length (i1 u)) (checkSteps input) planText conclusions ?p
                else i1 u)"
  define i4 where "i4 = (\<lambda>u i3. if UnsupportedClaims \<in> set targets
                        then i3 @ detectUnsupportedClaims u (length i3) claims conclusions
                                    (sessionAssumptions input) (recentDecisionLogs input) ?p
                        else i3)"
  define i5 where "i5 = (\<lambda>u i3. if GoalDriftTarget \<in> set targets
                        then i4 u i3 @ detectGoalDrift u (length (i4 u i3)) (checkGoal input) claims conclusions
                                    (map checkStepText (checkSteps input)) planText ?p
                        else i4 u i3)"
  have eq: "collectIssues u input =
     (case pushCircular targets u (checkSteps input) ?p (i2 u) of
           None \<Rightarrow> None
         | Some i3 \<Rightarrow> Some (i5 u i3))" for u
    unfolding collectIssues_def[of u input] Let_def targets_def claims_def conclusions_def planText_def
      i1_def i2_def i4_def i5_def by (rule refl)
  have e1: "map eraseIssueId (i1 u1) = map eraseIssueId (i1 u2)"
    unfolding i1_def using detectContradictions_erased[of u1 0 claims conclusions ?p u2 0] by simp
  have e2: "map eraseIssueId (i2 u1) = map eraseIssueId (i2 u2)"
    unfolding i2_def
    using e1 detectMissingSteps_erased[of u1 "length (i1 u1)" "checkSteps input" planText conclusions ?p
                u2 "length (i1 u2)"]
    by simp
  have e4: "map eraseIssueId (i4 u1 a) = map eraseIssueId (i4 u2 b)"
    if "map eraseIssueId a = map eraseIssueId b" for a b
    unfolding i4_def
    using that detectUnsupportedClaims_erased[of u1 "length a" claims conclusions "sessionAssumptions input"
                "recentDecisionLogs input" ?p u2 "length b"]
    by simp
  have e5: "map eraseIssueId (i5 u1 a) = map eraseIssueId (i5 u2 b)"
    if "map eraseIssueId a = map eraseIssueId b" for a b
    unfolding i5_def
    using e4[OF that] detectGoalDrift_erased[of u1 "length (i4 u1 a)" "checkGoal input" claims conclusions
                "map checkStepText (checkSteps input)" planText ?p u2 "length (i4 u2 b)"]
    by simp
  have r: "map_option (map eraseIssueId) (pushCircular targets u1 (checkSteps input) ?p (i2 u1)) =
           map_option (map eraseIssueId) (pushCircular targets u2 (checkSteps input) ?p (i2 u2))"
    by (rule pushCircular_erased[OF e2])
  from r show ?thesis
  proof (cases rule: map_option_eq_cases)
    case 1
    then show ?thesis unfolding eq by simp
  next
    case (2 a b)
    from e5[OF 2(3)] 2(1,2) show ?thesis unfolding eq by simp
  qed
qed

lemma highSeverity_erased:
  "map eraseIssueId xs = map eraseIssueId ys \<Longrightarrow>
   length (filter (\<lambda>issue. issueSeverity issue = High) xs) =
   length (filter (\<lambda>issue. issueSeverity issue = High) ys)"
proof (induction xs arbitrary: ys)
  case Nil
  then show ?case by simp
next
  case (Cons x xs)
  then obtain y ys' where y: "ys = y # ys'" and xy: "eraseIssueId x = eraseIssueId y"
    and r: "map eraseIssueId xs = map eraseIssueId ys'"
    by (cases ys) auto
  from xy have "issueSeverity x = issueSeverity y"
    by (cases x, cases y) (simp add: eraseIssueId_def)
  with Cons.IH[OF r] y show ?case by simp
qed

lemma capItems_map: "map f (capItems xs n) = capItems (map f xs) n"
  by (simp add: capItems_def take_map)

lemma runConsistencyCheck_erased:
  "map_option eraseIssueIds (runConsistencyCheck u1 input) =
   map_option eraseIssueIds (runConsistencyCheck u2 input)"
proof -
  have r: "map_option (map eraseIssueId) (collectIssues u1 input) =
           map_option (map eraseIssueId) (collectIssues u2 input)"
    by (rule collectIssues_erased)
  from r show ?thesis
  proof (cases rule: map_option_eq_cases)
    case 1
    then show ?thesis by (simp add: runConsistencyCheck_def)
  next
    case (2 a b)
    let ?n = "maxFindings (checkPolicy input)"
    have c: "map eraseIssueId (capItems a ?n) = map eraseIssueId (capItems b ?n)"
      unfolding capItems_map using 2(3) by simp
    then have l: "length (capItems a ?n) = length (capItems b ?n)" by (rule map_eq_imp_length_eq)
    from l have e: "(capItems a ?n = []) = (capItems b ?n = [])"
      by (cases "capItems a ?n"; cases "capItems b ?n") simp_all
    from 2(1,2) c l e highSeverity_erased[OF c] show ?thesis
      by (simp add: runConsistencyCheck_def Let_def eraseIssueIds_def)
  qed
qed

lemma extractRisks_erased:
  "map eraseRiskId (extractRisks u1 task cs us as policy) =
   map eraseRiskId (extractRisks u2 task cs us as policy)"
  by (simp add: extractRisks_def Let_def capItems_map eraseRiskId_def split_def comp_def)

lemma analyzeTask_erased:
  "eraseRiskIds (analyzeTask u1 input) = eraseRiskIds (analyzeTask u2 input)"
  unfolding analyzeTask_def Let_def eraseRiskIds_def
  by (simp add: extractRisks_erased[of u1 _ _ _ _ _ u2])

lemma erased_risks_inj:
  "map eraseRiskId xs = map eraseRiskId ys \<Longrightarrow> map riskId xs = map riskId ys \<Longrightarrow> xs = ys"
proof (induction xs arbitrary: ys)
  case Nil
  then show ?case by simp
next
  case (Cons x xs)
  then obtain y ys' where y: "ys = y # ys'" and xy: "eraseRiskId x = eraseRiskId y" "riskId x = riskId y"
    and r: "map eraseRiskId xs = map eraseRiskId ys'" "map riskId xs = map riskId ys'"
    by (cases ys) auto
  from xy have "x = y" by (cases x, cases y) (simp add: eraseRiskId_def)
  with Cons.IH[OF r] y show ?case by simp
qed

lemma erased_issues_inj:
  "map eraseIssueId xs = map eraseIssueId ys \<Longrightarrow> map issueId xs = map issueId ys \<Longrightarrow> xs = ys"
proof (induction xs arbitrary: ys)
  case Nil
  then show ?case by simp
next
  case (Cons x xs)
  then obtain y ys' where y: "ys = y # ys'" and xy: "eraseIssueId x = eraseIssueId y" "issueId x = issueId y"
    and r: "map eraseIssueId xs = map eraseIssueId ys'" "map issueId xs = map issueId ys'"
    by (cases ys) auto
  from xy have "x = y" by (cases x, cases y) (simp add: eraseIssueId_def)
  with Cons.IH[OF r] y show ?case by simp
qed

lemma eraseRiskIds_inj:
  assumes "eraseRiskIds a = eraseRiskIds b" "map riskId (risks a) = map riskId (risks b)"
  shows "a = b"
proof -
  from assms(1) have "map eraseRiskId (risks a) = map eraseRiskId (risks b)"
    by (cases a, cases b) (simp add: eraseRiskIds_def)
  from erased_risks_inj[OF this assms(2)] have "risks a = risks b" .
  with assms(1) show ?thesis by (cases a, cases b) (simp add: eraseRiskIds_def)
qed

lemma eraseIssueIds_inj:
  assumes "eraseIssueIds a = eraseIssueIds b" "map issueId (issues a) = map issueId (issues b)"
  shows "a = b"
proof -
  from assms(1) have "map eraseIssueId (issues a) = map eraseIssueId (issues b)"
    by (cases a, cases b) (simp add: eraseIssueIds_def)
  from erased_issues_inj[OF this assms(2)] have "issues a = issues b" .
  with assms(1) show ?thesis by (cases a, cases b) (simp add: eraseIssueIds_def)
qed

text \<open>
  Claim C7. The generated identifiers are the only source of variation, and nothing
  depends on them. \<open>decomposeTask\<close>, \<open>buildPlan\<close>, \<open>runCriticReview\<close>,
  \<open>selectNextBestAction\<close> and \<open>compactReasoningState\<close> generate no identifier: they are
  functions of their input and policy alone. For \<open>analyzeTask\<close> and \<open>runConsistencyCheck\<close>,
  whatever the two supplies of generated identifiers are, the two outputs on the same
  input and policy are equal once the identifier fields are blanked (same entries, in
  the same order, same summary), and if the identifier fields of the two outputs agree
  then the two outputs are equal; \<open>runConsistencyCheck\<close> returns under one supply iff
  it does under the other.
\<close>

theorem generated_ids_opaque:
  "eraseRiskIds (analyzeTask uuids1 analyzeInput) = eraseRiskIds (analyzeTask uuids2 analyzeInput) \<and>
   (map riskId (risks (analyzeTask uuids1 analyzeInput)) = map riskId (risks (analyzeTask uuids2 analyzeInput))
      \<longrightarrow> analyzeTask uuids1 analyzeInput = analyzeTask uuids2 analyzeInput) \<and>
   map_option eraseIssueIds (runConsistencyCheck uuids1 checkInput) =
     map_option eraseIssueIds (runConsistencyCheck uuids2 checkInput) \<and>
   (map_option (map issueId \<circ> issues) (runConsistencyCheck uuids1 checkInput) =
      map_option (map issueId \<circ> issues) (runConsistencyCheck uuids2 checkInput)
      \<longrightarrow> runConsistencyCheck uuids1 checkInput = runConsistencyCheck uuids2 checkInput)"
proof (intro conjI impI)
  show a: "eraseRiskIds (analyzeTask uuids1 analyzeInput) = eraseRiskIds (analyzeTask uuids2 analyzeInput)"
    by (rule analyzeTask_erased)
  show "analyzeTask uuids1 analyzeInput = analyzeTask uuids2 analyzeInput"
    if "map riskId (risks (analyzeTask uuids1 analyzeInput)) = map riskId (risks (analyzeTask uuids2 analyzeInput))"
    using a that by (rule eraseRiskIds_inj)
  show c: "map_option eraseIssueIds (runConsistencyCheck uuids1 checkInput) =
     map_option eraseIssueIds (runConsistencyCheck uuids2 checkInput)"
    by (rule runConsistencyCheck_erased)
  show "runConsistencyCheck uuids1 checkInput = runConsistencyCheck uuids2 checkInput"
    if i: "map_option (map issueId \<circ> issues) (runConsistencyCheck uuids1 checkInput) =
      map_option (map issueId \<circ> issues) (runConsistencyCheck uuids2 checkInput)"
    using c
  proof (cases rule: map_option_eq_cases)
    case 1
    then show ?thesis by simp
  next
    case (2 x y)
    from i 2(1,2) have "map issueId (issues x) = map issueId (issues y)" by simp
    from eraseIssueIds_inj[OF 2(3) this] 2(1,2) show ?thesis by simp
  qed
qed

text \<open>
  Two supplies that differ from the fourth call on: the analysis of the debugging
  scenario draws one identifier and the check of the cyclic draft draws three, so the
  identifier fields agree, and the outputs are equal.
\<close>

theorem generated_ids_opaque_witness:
  "map riskId (risks (analyzeTask showNat debugScenarioInput)) = [''risk_0''] \<and>
   map riskId (risks (analyzeTask lateSupply debugScenarioInput)) = [''risk_0''] \<and>
   map_option (map issueId \<circ> issues) (runConsistencyCheck showNat cyclicDraftInput) =
     Some [''issue_0'', ''issue_1'', ''issue_2''] \<and>
   map_option (map issueId \<circ> issues) (runConsistencyCheck lateSupply cyclicDraftInput) =
     Some [''issue_0'', ''issue_1'', ''issue_2''] \<and>
   showNat 3 \<noteq> lateSupply 3 \<and>
   eraseRiskIds (analyzeTask showNat debugScenarioInput) =
     eraseRiskIds (analyzeTask lateSupply debugScenarioInput) \<and>
   analyzeTask showNat debugScenarioInput = analyzeTask lateSupply debugScenarioInput \<and>
   map_option eraseIssueIds (runConsistencyCheck showNat cyclicDraftInput) =
     map_option eraseIssueIds (runConsistencyCheck lateSupply cyclicDraftInput) \<and>
   runConsistencyCheck showNat cyclicDraftInput = runConsistencyCheck lateSupply cyclicDraftInput"
proof -
  have r: "map riskId (risks (analyzeTask u debugScenarioInput)) = [newId ''risk'' (u 0)]" for u
    by code_simp
  have i: "map_option (map issueId \<circ> issues) (runConsistencyCheck u cyclicDraftInput) =
             Some [newId ''issue'' (u 0), newId ''issue'' (u 1), newId ''issue'' (u 2)]" for u
    by code_simp
  have s: "newId ''risk'' (showNat 0) = ''risk_0''" "newId ''risk'' (lateSupply 0) = ''risk_0''"
    "[newId ''issue'' (showNat 0), newId ''issue'' (showNat 1), newId ''issue'' (showNat 2)] =
       [''issue_0'', ''issue_1'', ''issue_2'']"
    "[newId ''issue'' (lateSupply 0), newId ''issue'' (lateSupply 1), newId ''issue'' (lateSupply 2)] =
       [''issue_0'', ''issue_1'', ''issue_2'']"
    "showNat 3 \<noteq> lateSupply 3"
    by code_simp+
  have r1: "map riskId (risks (analyzeTask showNat debugScenarioInput)) = [''risk_0'']"
    and r2: "map riskId (risks (analyzeTask lateSupply debugScenarioInput)) = [''risk_0'']"
    unfolding r s by (rule refl)+
  have i1: "map_option (map issueId \<circ> issues) (runConsistencyCheck showNat cyclicDraftInput) =
              Some [''issue_0'', ''issue_1'', ''issue_2'']"
    and i2: "map_option (map issueId \<circ> issues) (runConsistencyCheck lateSupply cyclicDraftInput) =
              Some [''issue_0'', ''issue_1'', ''issue_2'']"
    unfolding i s by (rule refl)+
  from generated_ids_opaque[of showNat debugScenarioInput lateSupply cyclicDraftInput] r1 r2 i1 i2 s(5)
  show ?thesis by simp
qed


end
